theory Spec2Isabelle
  imports Main "HOL-Library.Word"
begin

unbundle bit_operations_syntax

section \<open>Machine types and exceptions\<close>

text \<open>
  The C++ integer types of the sources. Levels are \<open>std::int16_t\<close>; a comparison of two
  of them promotes both to \<open>int\<close>, so comparisons are written on \<open>sint\<close>. The 64-bit row
  and value counters (\<open>std::int64_t\<close>) are modelled as \<open>int\<close>: they count elements of
  arrays held in memory and never come near \<open>2^63\<close>.
\<close>

type_synonym uint8 = "8 word"
type_synonym int16 = "16 word"
type_synonym int32 = "32 word"
type_synonym uint32 = "32 word"
type_synonym uint64 = "64 word"

text \<open>
  \<open>::parquet::ParquetException\<close> with its message; \<open>ParquetException::NYI\<close> throws the
  same class for an encoding that is recognised and not implemented.
\<close>

datatype ParquetException = ParquetException string | NYI string

section \<open>Arrays\<close>

text \<open>
  A store of the elements \<open>xs\<close> into an array from index \<open>off\<close> on. The array must hold
  them; a store past its end is undefined behaviour in C++ and lost here.
\<close>

fun write_at :: "'a list \<Rightarrow> nat \<Rightarrow> 'a list \<Rightarrow> 'a list" where
  "write_at arr off [] = arr"
| "write_at arr off (x # xs) = write_at (arr[off := x]) (Suc off) xs"

section \<open>Validity bitmaps\<close>

text \<open>
  A validity bitmap is a byte array, one bit per row, least significant bit first
  (\<open>bits[i / 8] & (1 << (i % 8))\<close>). \<open>GetBit\<close> is \<open>arrow::BitUtil::GetBit\<close>.
\<close>

definition GetBit :: "uint8 list \<Rightarrow> nat \<Rightarrow> bool" where
  "GetBit bits i = bit (bits ! (i div 8)) (i mod 8)"

text \<open>
  The bit helpers of column_reader.cu and column_reader.cpp: \<open>_ByteWithBit\<close> and
  \<open>_FlippedBitmask\<close> are table lookups, \<open>_TurnBitOn\<close> and \<open>_TurnBitOff\<close> change one
  bit of the array.
\<close>

definition ByteWithBit :: "nat \<Rightarrow> uint8" where
  "ByteWithBit i = [1, 2, 4, 8, 16, 32, 64, 128] ! i"

definition FlippedBitmask :: "nat \<Rightarrow> uint8" where
  "FlippedBitmask i = [254, 253, 251, 247, 239, 223, 191, 127] ! i"

definition TurnBitOn :: "uint8 list \<Rightarrow> nat \<Rightarrow> uint8 list" where
  "TurnBitOn bits i = bits[i div 8 := (bits ! (i div 8)) OR ByteWithBit (i mod 8)]"

definition TurnBitOff :: "uint8 list \<Rightarrow> nat \<Rightarrow> uint8 list" where
  "TurnBitOff bits i = bits[i div 8 := (bits ! (i div 8)) AND FlippedBitmask (i mod 8)]"

text \<open>
  \<open>arrow::internal::BitmapWriter\<close> is a class of the Arrow library, a sequential writer
  of single bits that keeps the bits around them. Its contract is modelled: the writer
  stands at bit \<open>start_offset + position\<close> of the bitmap, \<open>Set\<close> and \<open>Clear\<close> write that
  bit, \<open>Next\<close> moves one bit on, \<open>Finish\<close> flushes the byte the library keeps cached
  (nothing to do here, where every write goes to the array at once). The array must be
  long enough for every bit written; a write past its end is undefined behaviour in
  C++ and leaves the list as it is here.
\<close>

record BitmapWriter =
  bitmap :: "uint8 list"
  start_offset :: nat
  position :: nat

definition BitmapWriter_init :: "uint8 list \<Rightarrow> nat \<Rightarrow> BitmapWriter" where
  "BitmapWriter_init bits off = \<lparr>bitmap = bits, start_offset = off, position = 0\<rparr>"

definition BitmapWriter_Set :: "BitmapWriter \<Rightarrow> BitmapWriter" where
  "BitmapWriter_Set w = w\<lparr>bitmap := TurnBitOn (bitmap w) (start_offset w + position w)\<rparr>"

definition BitmapWriter_Clear :: "BitmapWriter \<Rightarrow> BitmapWriter" where
  "BitmapWriter_Clear w = w\<lparr>bitmap := TurnBitOff (bitmap w) (start_offset w + position w)\<rparr>"

definition BitmapWriter_Next :: "BitmapWriter \<Rightarrow> BitmapWriter" where
  "BitmapWriter_Next w = w\<lparr>position := position w + 1\<rparr>"

subsection \<open>The repetition-aware builder (column_reader.cu, first overload)\<close>

text \<open>
  The loop of \<open>_DefinitionLevelsToBitmap\<close> with eight parameters, over the levels
  \<open>def_levels[0 .. num_def_levels)\<close>. The state is the writer and \<open>*null_count\<close>.
  \<open>continue\<close> skips \<open>valid_bits_writer.Next()\<close>.
\<close>

fun DefinitionLevelsToBitmap_loop ::
  "int16 list \<Rightarrow> int16 \<Rightarrow> int16 \<Rightarrow> BitmapWriter \<Rightarrow> int \<Rightarrow> ParquetException + (BitmapWriter \<times> int)"
where
  "DefinitionLevelsToBitmap_loop [] max_definition_level max_repetition_level w null_count =
     Inr (w, null_count)"
| "DefinitionLevelsToBitmap_loop (l # ls) max_definition_level max_repetition_level w null_count =
     (if sint l = sint max_definition_level then
        DefinitionLevelsToBitmap_loop ls max_definition_level max_repetition_level
          (BitmapWriter_Next (BitmapWriter_Set w)) null_count
      else if 0 < sint max_repetition_level then
        (if sint l = sint max_definition_level - 1 then
           DefinitionLevelsToBitmap_loop ls max_definition_level max_repetition_level
             (BitmapWriter_Next (BitmapWriter_Clear w)) (null_count + 1)
         else
           DefinitionLevelsToBitmap_loop ls max_definition_level max_repetition_level w null_count)
      else
        (if sint l < sint max_definition_level then
           DefinitionLevelsToBitmap_loop ls max_definition_level max_repetition_level
             (BitmapWriter_Next (BitmapWriter_Clear w)) (null_count + 1)
         else Inl (ParquetException ''definition level exceeds maximum'')))"

text \<open>
  The whole function: the result is \<open>(*values_read, *null_count, valid_bits)\<close>, where
  \<open>*values_read\<close> is the writer's final position and \<open>*null_count\<close> is added to.
\<close>

definition DefinitionLevelsToBitmap ::
  "int16 list \<Rightarrow> int16 \<Rightarrow> int16 \<Rightarrow> int \<Rightarrow> uint8 list \<Rightarrow> nat \<Rightarrow> ParquetException + (int \<times> int \<times> uint8 list)"
where
  "DefinitionLevelsToBitmap def_levels max_definition_level max_repetition_level null_count
       valid_bits valid_bits_offset =
     (case DefinitionLevelsToBitmap_loop def_levels max_definition_level max_repetition_level
             (BitmapWriter_init valid_bits valid_bits_offset) null_count of
        Inl e \<Rightarrow> Inl e
      | Inr (w, nc) \<Rightarrow> Inr (int (position w), nc, bitmap w))"

subsection \<open>The builder ToGdfColumn calls (column_reader.cu, second overload)\<close>

text \<open>
  The overload with seven parameters has no repetition level; it leaves \<open>*values_read\<close>
  as it is (the assignment is commented out in the source), so the result is
  \<open>(*null_count, null_bitmap_ptr)\<close>.
\<close>

fun DefinitionLevelsToBitmap_flat_loop ::
  "int16 list \<Rightarrow> int16 \<Rightarrow> BitmapWriter \<Rightarrow> int \<Rightarrow> ParquetException + (BitmapWriter \<times> int)"
where
  "DefinitionLevelsToBitmap_flat_loop [] max_definition_level w null_count = Inr (w, null_count)"
| "DefinitionLevelsToBitmap_flat_loop (l # ls) max_definition_level w null_count =
     (if sint l = sint max_definition_level then
        DefinitionLevelsToBitmap_flat_loop ls max_definition_level
          (BitmapWriter_Next (BitmapWriter_Set w)) null_count
      else if sint l < sint max_definition_level then
        DefinitionLevelsToBitmap_flat_loop ls max_definition_level
          (BitmapWriter_Next (BitmapWriter_Clear w)) (null_count + 1)
      else Inl (ParquetException ''definition level exceeds maximum''))"

definition DefinitionLevelsToBitmap_flat ::
  "int16 list \<Rightarrow> int16 \<Rightarrow> int \<Rightarrow> uint8 list \<Rightarrow> nat \<Rightarrow> ParquetException + (int \<times> uint8 list)"
where
  "DefinitionLevelsToBitmap_flat def_levels max_definition_level null_count null_bitmap_ptr
       valid_bits_offset =
     (case DefinitionLevelsToBitmap_flat_loop def_levels max_definition_level
             (BitmapWriter_init null_bitmap_ptr valid_bits_offset) null_count of
        Inl e \<Rightarrow> Inl e
      | Inr (w, nc) \<Rightarrow> Inr (nc, bitmap w))"

subsection \<open>The host builder (column_reader.cpp)\<close>

text \<open>
  \<open>_GenerateNullBitmap\<close>: \<open>DCHECK_LT(levels[i], file_level)\<close> is a debug assertion,
  compiled out of a release build; the function has no other check and cannot fail.
  The result is \<open>(null_count, null_bitmap_ptr)\<close>.
\<close>

fun GenerateNullBitmap_loop :: "int16 list \<Rightarrow> nat \<Rightarrow> int16 \<Rightarrow> uint8 list \<Rightarrow> nat \<Rightarrow> nat \<times> uint8 list"
where
  "GenerateNullBitmap_loop [] i file_level null_bitmap_ptr null_count = (null_count, null_bitmap_ptr)"
| "GenerateNullBitmap_loop (l # ls) i file_level null_bitmap_ptr null_count =
     (if sint l = sint file_level then
        GenerateNullBitmap_loop ls (i + 1) file_level (TurnBitOn null_bitmap_ptr i) null_count
      else GenerateNullBitmap_loop ls (i + 1) file_level null_bitmap_ptr (null_count + 1))"

definition GenerateNullBitmap :: "int16 list \<Rightarrow> int16 \<Rightarrow> uint8 list \<Rightarrow> nat \<times> uint8 list" where
  "GenerateNullBitmap levels file_level null_bitmap_ptr =
     GenerateNullBitmap_loop levels 0 file_level null_bitmap_ptr 0"

section \<open>The file-level entry point (read_parquet)\<close>

text \<open>
  \<open>gdf_error\<close> comes from \<open>gdf.h\<close>; \<open>read_parquet\<close> returns only these two codes. The
  physical types are the enumerators of \<open>::parquet::Type\<close>.
\<close>

datatype gdf_error = GDF_SUCCESS | GDF_IO_ERROR

datatype ParquetType =
  BOOLEAN | INT32 | INT64 | INT96 | FLOAT | DOUBLE | BYTE_ARRAY | FIXED_LEN_BYTE_ARRAY

text \<open>
  What \<open>read_parquet\<close> asks of an opened file: the metadata counts, the descriptor
  (name and physical type) of each column of row group 0, and the outcome of
  \<open>ToGdfColumn\<close> on a column of a row group: \<open>None\<close> when it returns, \<open>Some e\<close> when it
  throws. \<open>FileReader\<close> wraps the parquet-cpp file reader; its header is part_000.
\<close>

record FileReader =
  num_row_groups :: nat
  num_rows :: nat
  column_descriptors :: "(string \<times> ParquetType) list"
  ToGdfColumn_throws :: "nat \<Rightarrow> nat \<Rightarrow> ParquetException option"

subsection \<open>ColumnNames\<close>

definition ColumnNames :: "FileReader \<Rightarrow> string list" where
  "ColumnNames file_reader = map fst (column_descriptors file_reader)"

definition Size :: "string list \<Rightarrow> nat" where
  "Size column_names = length column_names"

definition Contains :: "string list \<Rightarrow> nat \<Rightarrow> bool" where
  "Contains column_names index = (index < Size column_names)"

text \<open>\<open>std::find(...) - cbegin()\<close>: the first position of the name, or the size.\<close>

fun IndexOf :: "string list \<Rightarrow> string \<Rightarrow> nat" where
  "IndexOf [] name = 0"
| "IndexOf (c # cs) name = (if c = name then 0 else 1 + IndexOf cs name)"

subsection \<open>ColumnFilter\<close>

text \<open>
  The constructor copies a null-terminated array of names; a null pointer gives no
  names. \<open>IndicesFrom\<close> selects every column when there are no filter names, and
  otherwise the index of each filter name that the file contains, in filter order.
\<close>

definition ColumnFilter :: "string list option \<Rightarrow> string list" where
  "ColumnFilter raw_names = (case raw_names of None \<Rightarrow> [] | Some names \<Rightarrow> names)"

fun IndicesFrom_loop :: "string list \<Rightarrow> string list \<Rightarrow> nat list \<Rightarrow> nat list" where
  "IndicesFrom_loop [] column_names indices = indices"
| "IndicesFrom_loop (name # names) column_names indices =
     (let index = IndexOf column_names name in
      if Contains column_names index
      then IndicesFrom_loop names column_names (indices @ [index])
      else IndicesFrom_loop names column_names indices)"

definition IndicesFrom :: "string list \<Rightarrow> string list \<Rightarrow> nat list" where
  "IndicesFrom filter_names column_names =
     (if filter_names = [] then [0 ..< Size column_names]
      else IndicesFrom_loop filter_names column_names [])"

subsection \<open>read_parquet (part_003)\<close>

definition CheckMinimalData :: "FileReader \<Rightarrow> gdf_error" where
  "CheckMinimalData file_reader =
     (if num_row_groups file_reader = 0 then GDF_IO_ERROR
      else if num_rows file_reader = 0 then GDF_IO_ERROR
      else GDF_SUCCESS)"

text \<open>
  \<open>_AllocateGdfColumns\<close> switches on the physical type of each selected column; each of
  the eight enumerators has a case, whose \<open>_AllocateGdfColumn\<close> result is discarded, so
  the \<open>default\<close> branch (\<open>GDF_IO_ERROR\<close>) is reached by no enumerator.
\<close>

fun AllocateGdfColumns :: "ParquetType list \<Rightarrow> gdf_error" where
  "AllocateGdfColumns [] = GDF_SUCCESS"
| "AllocateGdfColumns (t # ts) =
     (case t of
        BOOLEAN \<Rightarrow> AllocateGdfColumns ts
      | INT32 \<Rightarrow> AllocateGdfColumns ts
      | INT64 \<Rightarrow> AllocateGdfColumns ts
      | INT96 \<Rightarrow> AllocateGdfColumns ts
      | FLOAT \<Rightarrow> AllocateGdfColumns ts
      | DOUBLE \<Rightarrow> AllocateGdfColumns ts
      | BYTE_ARRAY \<Rightarrow> AllocateGdfColumns ts
      | FIXED_LEN_BYTE_ARRAY \<Rightarrow> AllocateGdfColumns ts)"

definition ColumnDescriptorsFrom :: "FileReader \<Rightarrow> nat list \<Rightarrow> ParquetType list" where
  "ColumnDescriptorsFrom file_reader indices =
     map (\<lambda>i. snd (column_descriptors file_reader ! i)) indices"

text \<open>
  \<open>_ReadFile\<close>: for each row group and each selected column, \<open>ToGdfColumn\<close> (the switch
  on the column's type has a case for each of the eight enumerators, all alike); its
  row count is only checked by a \<open>DCHECK\<close>, an exception it throws is not caught.
\<close>

fun ReadFile_columns :: "FileReader \<Rightarrow> nat \<Rightarrow> nat list \<Rightarrow> ParquetException + gdf_error" where
  "ReadFile_columns file_reader row_group_index [] = Inr GDF_SUCCESS"
| "ReadFile_columns file_reader row_group_index (i # indices) =
     (case ToGdfColumn_throws file_reader row_group_index i of
        Some e \<Rightarrow> Inl e
      | None \<Rightarrow> ReadFile_columns file_reader row_group_index indices)"

fun ReadFile_row_groups :: "FileReader \<Rightarrow> nat list \<Rightarrow> nat list \<Rightarrow> ParquetException + gdf_error" where
  "ReadFile_row_groups file_reader [] indices = Inr GDF_SUCCESS"
| "ReadFile_row_groups file_reader (g # gs) indices =
     (case ReadFile_columns file_reader g indices of
        Inl e \<Rightarrow> Inl e
      | Inr status \<Rightarrow>
          if status \<noteq> GDF_SUCCESS then Inr status
          else ReadFile_row_groups file_reader gs indices)"

definition ReadFile :: "FileReader \<Rightarrow> nat list \<Rightarrow> ParquetException + gdf_error" where
  "ReadFile file_reader indices =
     ReadFile_row_groups file_reader [0 ..< num_row_groups file_reader] indices"

text \<open>
  How a call can end without returning: an exception that nothing catches, or a store
  past the end of the array \<open>gdf_columns\<close>. The array is allocated with one element per
  column of the file, and \<open>_AllocateGdfColumns\<close> stores into one element per selected
  index; more indices than columns (a name requested more than once) run past its end,
  which is undefined behaviour.
\<close>

datatype abort = UncaughtException ParquetException | OutOfBoundsStore

text \<open>
  \<open>read_parquet\<close>. The file system is a function from a path to the opened file
  (\<open>None\<close> when \<open>FileReader::OpenFile\<close> throws); \<open>heap_ok\<close> says whether
  \<open>new gdf_column[...]\<close> succeeds. The result is the error code with the value stored
  in \<open>*out_gdf_columns_length\<close>, if any was stored.
\<close>

definition read_parquet ::
  "(string \<Rightarrow> FileReader option) \<Rightarrow> bool \<Rightarrow> string \<Rightarrow> string option \<Rightarrow> string list option
     \<Rightarrow> abort + (gdf_error \<times> nat option)"
where
  "read_parquet file_system heap_ok filename engine columns =
     (if engine \<noteq> None then Inr (GDF_IO_ERROR, None)
      else case file_system filename of
        None \<Rightarrow> Inr (GDF_IO_ERROR, None)
      | Some file_reader \<Rightarrow>
          if CheckMinimalData file_reader \<noteq> GDF_SUCCESS then Inr (GDF_IO_ERROR, None)
          else
            let column_names = ColumnNames file_reader;
                column_filter = ColumnFilter columns;
                indices = IndicesFrom column_filter column_names
            in if \<not> heap_ok then Inr (GDF_IO_ERROR, None)
               else if length indices > length (column_descriptors file_reader)
               then Inl OutOfBoundsStore
               else if AllocateGdfColumns (ColumnDescriptorsFrom file_reader indices) \<noteq> GDF_SUCCESS
               then Inr (GDF_IO_ERROR, None)
               else case ReadFile file_reader indices of
                 Inl e \<Rightarrow> Inl (UncaughtException e)
               | Inr status \<Rightarrow>
                   if status \<noteq> GDF_SUCCESS then Inr (GDF_IO_ERROR, None)
                   else Inr (GDF_SUCCESS, Some (length indices)))"

text \<open>The number of requested names that name a column of the file.\<close>

definition matched_names :: "string list \<Rightarrow> string list \<Rightarrow> nat" where
  "matched_names column_names names = length (filter (\<lambda>n. n \<in> set column_names) names)"

text \<open>
  A file used in the examples: one row group of three rows, the columns \<open>a\<close> (INT32) and
  \<open>b\<close> (INT64), every column read returning normally.
\<close>

definition example_file :: FileReader where
  "example_file = \<lparr>num_row_groups = 1, num_rows = 3,
     column_descriptors = [(''a'', INT32), (''b'', INT64)],
     ToGdfColumn_throws = (\<lambda>g c. None)\<rparr>"

definition example_file_system :: "string \<Rightarrow> FileReader option" where
  "example_file_system path = (if path = ''f.parquet'' then Some example_file else None)"

section \<open>ColumnReader\<close>

text \<open>The enumerators of \<open>::parquet::Encoding\<close> and \<open>::parquet::PageType\<close>.\<close>

datatype Encoding =
  PLAIN | PLAIN_DICTIONARY | RLE | BIT_PACKED | DELTA_BINARY_PACKED
  | DELTA_LENGTH_BYTE_ARRAY | DELTA_BYTE_ARRAY | RLE_DICTIONARY

datatype PageType = DATA_PAGE | INDEX_PAGE | DICTIONARY_PAGE | DATA_PAGE_V2

text \<open>
  Modelled from the spec: the level decoders (\<open>::parquet::LevelDecoder\<close>), the value
  decoders (plain_decoder.cuh, dictionary_decoder.cuh) and column_reader.h are not
  among the sources. The specification gives their contract: a decoder bound to a page
  by \<open>SetData\<close> hands out, on \<open>Decode(out, n)\<close>, the next \<open>min(n, remaining)\<close> elements
  of the page in order; a level decoder holds at most the page's \<open>num_values\<close> levels.
  So a page, as the page source (\<open>::parquet::PageReader\<close>) hands it over, holds its
  payload decoded: the levels that the level decoders yield from the front of the
  buffer and the values that the value decoder yields from the rest.
\<close>

record 'v Page =
  page_type :: PageType
  page_encoding :: Encoding
  page_num_values :: int
  page_rep_levels :: "int16 list"
  page_def_levels :: "int16 list"
  page_values :: "'v list"

text \<open>
  The members of \<open>ColumnReader\<close>. \<open>pager\<close> holds the pages \<open>NextPage()\<close> has yet to
  return. \<open>decoders\<close> holds the keys of the map \<open>decoders_\<close>; \<open>current_decoder\<close> is the
  key of the decoder \<open>current_decoder_\<close> points to and \<open>current_decoder_values\<close> the
  values that decoder has left. The two level decoders are the levels they have left.
\<close>

record 'v ColumnReader =
  descr_max_definition_level :: int16
  descr_max_repetition_level :: int16
  pager :: "'v Page list"
  current_page :: "'v Page option"
  decoders :: "Encoding set"
  current_decoder :: "Encoding option"
  current_decoder_values :: "'v list"
  num_buffered_values :: int
  num_decoded_values :: int
  definition_level_decoder :: "int16 list"
  repetition_level_decoder :: "int16 list"

text \<open>
  Modelled from the spec: the constructor is declared in column_reader.h, which is not
  among the sources. A new reader is in the state \<open>NeedsPage\<close>: it is bound to the
  descriptor and the page source, has no page and no decoder, and both counters are
  zero.
\<close>

definition ColumnReader_init :: "int16 \<Rightarrow> int16 \<Rightarrow> 'v Page list \<Rightarrow> 'v ColumnReader" where
  "ColumnReader_init max_def max_rep pages =
     \<lparr>descr_max_definition_level = max_def, descr_max_repetition_level = max_rep,
      pager = pages, current_page = None, decoders = {}, current_decoder = None,
      current_decoder_values = [], num_buffered_values = 0, num_decoded_values = 0,
      definition_level_decoder = [], repetition_level_decoder = []\<rparr>"

subsection \<open>ReadNewPage\<close>

definition ConfigureDictionary ::
  "'v Page \<Rightarrow> 'v ColumnReader \<Rightarrow> ParquetException + 'v ColumnReader"
where
  "ConfigureDictionary page r =
     (let encoding =
            (if page_encoding page = PLAIN_DICTIONARY \<or> page_encoding page = PLAIN
             then RLE_DICTIONARY else page_encoding page)
      in if encoding \<in> decoders r
         then Inl (ParquetException ''Column cannot have more than one dictionary.'')
         else if page_encoding page = PLAIN_DICTIONARY \<or> page_encoding page = PLAIN
         then Inr (r\<lparr>decoders := insert encoding (decoders r),
                     current_decoder := Some encoding,
                     current_decoder_values := []\<rparr>)
         else Inl (NYI ''only plain dictionary encoding has been implemented''))"

definition IsDictionaryIndexEncoding :: "Encoding \<Rightarrow> bool" where
  "IsDictionaryIndexEncoding e = (e = RLE_DICTIONARY \<or> e = PLAIN_DICTIONARY)"

text \<open>
  The data-page branch of \<open>ReadNewPage\<close>: the counters are set, the level decoders are
  bound when the column has levels, the decoder for the page's encoding is looked up or
  created, and the page's values are bound to it.
\<close>

definition ReadNewPage_data :: "'v Page \<Rightarrow> 'v ColumnReader \<Rightarrow> ParquetException + 'v ColumnReader"
where
  "ReadNewPage_data page r0 =
     (let r1 = r0\<lparr>num_buffered_values := page_num_values page, num_decoded_values := 0\<rparr>;
          r2 = (if 0 < sint (descr_max_repetition_level r1)
                then r1\<lparr>repetition_level_decoder :=
                          take (nat (page_num_values page)) (page_rep_levels page)\<rparr>
                else r1);
          r3 = (if 0 < sint (descr_max_definition_level r2)
                then r2\<lparr>definition_level_decoder :=
                          take (nat (page_num_values page)) (page_def_levels page)\<rparr>
                else r2);
          encoding = (if IsDictionaryIndexEncoding (page_encoding page)
                      then RLE_DICTIONARY else page_encoding page)
      in if encoding \<in> decoders r3
         then Inr (r3\<lparr>current_decoder := Some encoding,
                      current_decoder_values := page_values page\<rparr>)
         else (case encoding of
                 PLAIN \<Rightarrow>
                   Inr (r3\<lparr>decoders := insert encoding (decoders r3),
                           current_decoder := Some encoding,
                           current_decoder_values := page_values page\<rparr>)
               | RLE_DICTIONARY \<Rightarrow>
                   Inl (ParquetException ''Dictionary page must be before data page.'')
               | DELTA_BINARY_PACKED \<Rightarrow> Inl (NYI ''Unsupported encoding'')
               | DELTA_LENGTH_BYTE_ARRAY \<Rightarrow> Inl (NYI ''Unsupported encoding'')
               | DELTA_BYTE_ARRAY \<Rightarrow> Inl (NYI ''Unsupported encoding'')
               | _ \<Rightarrow> Inl (ParquetException ''Unknown encoding type.'')))"

text \<open>
  The loop of \<open>ReadNewPage\<close>, over the pages left in the source: a dictionary page
  configures the dictionary decoder and the loop goes on; a data page ends it with
  \<open>true\<close>; any other page is skipped; with no page left the result is \<open>false\<close>.
\<close>

fun ReadNewPage_loop ::
  "'v Page list \<Rightarrow> 'v ColumnReader \<Rightarrow> ParquetException + (bool \<times> 'v ColumnReader)"
where
  "ReadNewPage_loop [] r = Inr (False, r\<lparr>pager := [], current_page := None\<rparr>)"
| "ReadNewPage_loop (page # pages) r =
     (let r1 = r\<lparr>pager := pages, current_page := Some page\<rparr>
      in if page_type page = DICTIONARY_PAGE then
           (case ConfigureDictionary page r1 of
              Inl e \<Rightarrow> Inl e
            | Inr r2 \<Rightarrow> ReadNewPage_loop pages r2)
         else if page_type page = DATA_PAGE then
           (case ReadNewPage_data page r1 of
              Inl e \<Rightarrow> Inl e
            | Inr r2 \<Rightarrow> Inr (True, r2))
         else ReadNewPage_loop pages r1)"

definition ReadNewPage :: "'v ColumnReader \<Rightarrow> ParquetException + (bool \<times> 'v ColumnReader)" where
  "ReadNewPage r = ReadNewPage_loop (pager r) r"

subsection \<open>HasNext\<close>

definition HasNext :: "'v ColumnReader \<Rightarrow> ParquetException + (bool \<times> 'v ColumnReader)" where
  "HasNext r =
     (if num_buffered_values r = 0 \<or> num_decoded_values r = num_buffered_values r then
        (case ReadNewPage r of
           Inl e \<Rightarrow> Inl e
         | Inr (ok, r') \<Rightarrow>
             if \<not> ok \<or> num_buffered_values r' = 0 then Inr (False, r') else Inr (True, r'))
      else Inr (True, r))"

subsection \<open>ReadBatch\<close>

text \<open>
  Modelled from the spec: \<open>ReadDefinitionLevels\<close>, \<open>ReadRepetitionLevels\<close> and
  \<open>ConsumeBufferedValues\<close> are declared in column_reader.h, which is not among the
  sources. A level read yields nothing when the column's maximum level is 0, and
  otherwise the next \<open>min(batch_size, remaining)\<close> levels; consuming adds to
  \<open>num_decoded_values_\<close>.
\<close>

definition ReadDefinitionLevels :: "int \<Rightarrow> 'v ColumnReader \<Rightarrow> int16 list \<times> 'v ColumnReader" where
  "ReadDefinitionLevels batch_size r =
     (if sint (descr_max_definition_level r) = 0 then ([], r)
      else (take (nat batch_size) (definition_level_decoder r),
            r\<lparr>definition_level_decoder := drop (nat batch_size) (definition_level_decoder r)\<rparr>))"

definition ReadRepetitionLevels :: "int \<Rightarrow> 'v ColumnReader \<Rightarrow> int16 list \<times> 'v ColumnReader" where
  "ReadRepetitionLevels batch_size r =
     (if sint (descr_max_repetition_level r) = 0 then ([], r)
      else (take (nat batch_size) (repetition_level_decoder r),
            r\<lparr>repetition_level_decoder := drop (nat batch_size) (repetition_level_decoder r)\<rparr>))"

definition ConsumeBufferedValues :: "int \<Rightarrow> 'v ColumnReader \<Rightarrow> 'v ColumnReader" where
  "ConsumeBufferedValues n r = r\<lparr>num_decoded_values := num_decoded_values r + n\<rparr>"

text \<open>
  \<open>_ReadValues\<close> is \<open>decoder->Decode(out, batch_size)\<close> on the current decoder.
  Modelled from the spec: \<open>Decode\<close> is defined in the decoder headers, which are not
  among the sources; it copies the next \<open>min(n, remaining)\<close> values.
\<close>

definition ReadValues :: "int \<Rightarrow> 'v ColumnReader \<Rightarrow> 'v list \<times> 'v ColumnReader" where
  "ReadValues batch_size r =
     (take (nat batch_size) (current_decoder_values r),
      r\<lparr>current_decoder_values := drop (nat batch_size) (current_decoder_values r)\<rparr>)"

text \<open>
  What \<open>ReadBatch\<close> returns and writes: the return value, \<open>*values_read\<close>, and the
  elements stored from the start of \<open>def_levels\<close>, \<open>rep_levels\<close> and \<open>values\<close>.
\<close>

record 'v ReadBatch_result =
  rb_total_values :: int
  rb_values_read :: int
  rb_def_levels :: "int16 list"
  rb_rep_levels :: "int16 list"
  rb_values :: "'v list"

text \<open>
  \<open>ReadBatch\<close> (the same text in column_reader.cpp and column_reader.cu). The two level
  pointers are given as flags: \<open>True\<close> for a buffer, \<open>False\<close> for a null pointer.
\<close>

definition ReadBatch ::
  "int \<Rightarrow> bool \<Rightarrow> bool \<Rightarrow> 'v ColumnReader
     \<Rightarrow> ParquetException + ('v ReadBatch_result \<times> 'v ColumnReader)"
where
  "ReadBatch batch_size0 def_levels rep_levels r0 =
     (case HasNext r0 of
        Inl e \<Rightarrow> Inl e
      | Inr (False, r1) \<Rightarrow>
          Inr (\<lparr>rb_total_values = 0, rb_values_read = 0, rb_def_levels = [],
                rb_rep_levels = [], rb_values = []\<rparr>, r1)
      | Inr (True, r1) \<Rightarrow>
          (let batch_size = min batch_size0 (num_buffered_values r1 - num_decoded_values r1);
               (def_out, r2) =
                 (if 0 < sint (descr_max_definition_level r1) \<and> def_levels
                  then ReadDefinitionLevels batch_size r1 else ([], r1));
               num_def_levels = int (length def_out);
               values_to_read =
                 (if 0 < sint (descr_max_definition_level r1) \<and> def_levels
                  then int (length (filter (\<lambda>l. sint l = sint (descr_max_definition_level r1)) def_out))
                  else batch_size)
           in if 0 < sint (descr_max_repetition_level r2) \<and> rep_levels then
                (let (rep_out, r3) = ReadRepetitionLevels batch_size r2;
                     num_rep_levels = int (length rep_out)
                 in if def_levels \<and> num_def_levels \<noteq> num_rep_levels
                    then Inl (ParquetException ''Number of decoded rep / def levels did not match'')
                    else (let (vals, r4) = ReadValues values_to_read r3;
                              values_read = int (length vals);
                              total_values = max num_def_levels values_read
                          in Inr (\<lparr>rb_total_values = total_values, rb_values_read = values_read,
                                    rb_def_levels = def_out, rb_rep_levels = rep_out,
                                    rb_values = vals\<rparr>,
                                  ConsumeBufferedValues total_values r4)))
              else
                (let (vals, r4) = ReadValues values_to_read r2;
                     values_read = int (length vals);
                     total_values = max num_def_levels values_read
                 in Inr (\<lparr>rb_total_values = total_values, rb_values_read = values_read,
                           rb_def_levels = def_out, rb_rep_levels = [],
                           rb_values = vals\<rparr>,
                         ConsumeBufferedValues total_values r4))))"


definition example_data_page :: "int Page" where
  "example_data_page = \<lparr>page_type = DATA_PAGE, page_encoding = PLAIN, page_num_values = 3,
     page_rep_levels = [], page_def_levels = [1, 0, 1], page_values = [5, 7]\<rparr>"


section \<open>The RLE decoder (part_002)\<close>

subsection \<open>BitReader\<close>

text \<open>
  Modelled from the spec: \<open>BitReader\<close> (bit-stream.h) is not among the sources. The
  specification describes it as the leaf that "reads variable-length-quantity integers
  and fixed-bit-width packed integers from a byte buffer; advances a bit cursor", and
  the run header as a VLQ integer followed, for a repeated run, by one value of
  \<open>ceil(bit_width/8)\<close> bytes. The reader is the buffer with a cursor counted in bits.
  An aligned read starts at the next byte boundary and fails, leaving the reader as it
  is, when the buffer holds fewer bytes than asked for. A VLQ integer is read byte by
  byte, seven payload bits each, least significant group first, up to the first byte
  without the continuation bit \<open>0x80\<close>; it fails when the buffer ends before that byte.
  A batch of packed values is read least significant bit first; it yields as many whole
  values as the buffer still holds, at most the number asked for.
\<close>

record BitReader =
  buffer :: "uint8 list"
  bit_cursor :: nat

text \<open>
  Modelled from the spec: \<open>BitReader::Reset\<close> (bit-stream.h) binds the buffer and puts
  the cursor at its start.
\<close>

definition BitReader_Reset :: "uint8 list \<Rightarrow> BitReader" where
  "BitReader_Reset buf = \<lparr>buffer = buf, bit_cursor = 0\<rparr>"

text \<open>The bits from the cursor to the end of the buffer.\<close>

definition bits_left :: "BitReader \<Rightarrow> nat" where
  "bits_left br = 8 * length (buffer br) - bit_cursor br"

text \<open>
  Modelled from the spec: \<open>BitReader::GetAligned\<close> (bit-stream.h) yields the next
  \<open>num_bytes\<close> whole bytes from the next byte boundary on and moves the cursor behind
  them; it fails, leaving the reader as it is, when the buffer holds fewer.
\<close>

definition GetAligned :: "nat \<Rightarrow> BitReader \<Rightarrow> (uint8 list \<times> BitReader) option" where
  "GetAligned num_bytes br =
     (let byte_offset = (bit_cursor br + 7) div 8
      in if byte_offset + num_bytes > length (buffer br) then None
         else Some (take num_bytes (drop byte_offset (buffer br)),
                    br\<lparr>bit_cursor := 8 * (byte_offset + num_bytes)\<rparr>))"

text \<open>
  Modelled from the spec: the bytes of a VLQ integer, from the list of bytes at the
  cursor: the value read into an \<open>int32_t\<close> (if the terminating byte was found) and the
  number of bytes consumed.
\<close>

fun vlq_bytes :: "uint8 list \<Rightarrow> nat \<Rightarrow> int32 \<Rightarrow> int32 option \<times> nat" where
  "vlq_bytes [] shift v = (None, 0)"
| "vlq_bytes (byte # bytes) shift v =
     (let v' = v OR push_bit shift (ucast (byte AND 0x7F))
      in if byte AND 0x80 \<noteq> 0
         then (case vlq_bytes bytes (shift + 7) v' of (result, n) \<Rightarrow> (result, Suc n))
         else (Some v', 1))"

text \<open>
  Modelled from the spec: \<open>BitReader::GetVlqInt\<close> (bit-stream.h) reads a VLQ integer
  from the next byte boundary on; the cursor ends behind the bytes consumed, also when
  the read fails.
\<close>

definition GetVlqInt :: "BitReader \<Rightarrow> int32 option \<times> BitReader" where
  "GetVlqInt br =
     (let byte_offset = (bit_cursor br + 7) div 8
      in case vlq_bytes (drop byte_offset (buffer br)) 0 0 of
           (result, n) \<Rightarrow> (result, br\<lparr>bit_cursor := 8 * (byte_offset + n)\<rparr>))"

text \<open>
  Modelled from the spec: the \<open>num_bits\<close> bits of the buffer from bit \<open>pos\<close> on, least
  significant first, as a number.
\<close>

definition unpack_bits :: "uint8 list \<Rightarrow> nat \<Rightarrow> nat \<Rightarrow> uint64" where
  "unpack_bits buf pos num_bits =
     horner_sum of_bool 2 (map (\<lambda>j. GetBit buf (pos + j)) [0 ..< num_bits])"

text \<open>
  Modelled from the spec: \<open>BitReader::GetBatch\<close> (bit-stream.h) unpacks \<open>batch_size\<close>
  values of \<open>num_bits\<close> bits each from the cursor on, or as many whole values as the
  buffer still holds, and moves the cursor behind them.
\<close>

definition BitReader_GetBatch :: "nat \<Rightarrow> nat \<Rightarrow> BitReader \<Rightarrow> uint64 list \<times> BitReader" where
  "BitReader_GetBatch num_bits batch_size br =
     (let n = (if bits_left br < num_bits * batch_size then bits_left br div num_bits
               else batch_size)
      in (map (\<lambda>i. unpack_bits (buffer br) (bit_cursor br + i * num_bits) num_bits) [0 ..< n],
          br\<lparr>bit_cursor := bit_cursor br + n * num_bits\<rparr>))"

subsection \<open>RleDecoder\<close>

record RleDecoder =
  bit_reader :: BitReader
  bit_width :: int
  current_value :: uint64
  repeat_count :: uint32
  literal_count :: uint32

text \<open>
  The constructor with a buffer and \<open>Reset\<close>: both set every member. The buffer is
  the bytes \<open>buffer[0 .. buffer_len)\<close>. The \<open>DCHECK\<close>s on the bit width are debug
  assertions, compiled out of a release build.
\<close>

definition RleDecoder_init :: "uint8 list \<Rightarrow> int \<Rightarrow> RleDecoder" where
  "RleDecoder_init buf bw =
     \<lparr>bit_reader = BitReader_Reset buf, bit_width = bw, current_value = 0,
      repeat_count = 0, literal_count = 0\<rparr>"

definition Reset :: "uint8 list \<Rightarrow> int \<Rightarrow> RleDecoder \<Rightarrow> RleDecoder" where
  "Reset buf bw d =
     d\<lparr>bit_reader := BitReader_Reset buf, bit_width := bw, current_value := 0,
       repeat_count := 0, literal_count := 0\<rparr>"

text \<open>\<open>arrow::BitUtil::Ceil\<close>, on a value that is not negative.\<close>

definition Ceil :: "int \<Rightarrow> int \<Rightarrow> int" where
  "Ceil v divisor = v div divisor + (if v mod divisor \<noteq> 0 then 1 else 0)"

text \<open>
  \<open>GetAligned\<close> copies the bytes it reads over the first bytes of \<open>current_value_\<close>
  (\<open>memcpy\<close> through \<open>reinterpret_cast<T*>(&current_value_)\<close>); on a little-endian
  machine these are the low-order bytes, and the bytes above them stay.
\<close>

definition le_bytes :: "uint8 list \<Rightarrow> uint64" where
  "le_bytes bytes = horner_sum ucast (2 ^ 8) bytes"

definition store_bytes :: "uint8 list \<Rightarrow> uint64 \<Rightarrow> uint64" where
  "store_bytes bytes v =
     push_bit (8 * length bytes) (drop_bit (8 * length bytes) v) OR le_bytes bytes"

text \<open>
  \<open>NextCounts\<close>. The indicator is an \<open>int32_t\<close>: \<open>>> 1\<close> is the arithmetic shift,
  \<open>* 8\<close> wraps, and the assignment to the \<open>uint32_t\<close> counter keeps the bits.
  \<open>DCHECK(result)\<close> is a debug assertion: in a release build a failed aligned read
  leaves \<open>current_value_\<close> as it was and \<open>NextCounts\<close> still returns \<open>true\<close>.
\<close>

definition NextCounts :: "RleDecoder \<Rightarrow> bool \<times> RleDecoder" where
  "NextCounts d =
     (case GetVlqInt (bit_reader d) of
        (None, br) \<Rightarrow> (False, d\<lparr>bit_reader := br\<rparr>)
      | (Some indicator_value, br) \<Rightarrow>
          (if indicator_value AND 1 \<noteq> 0 then
             (True, d\<lparr>bit_reader := br,
                      literal_count := signed_drop_bit 1 indicator_value * 8\<rparr>)
           else
             (case GetAligned (nat (Ceil (bit_width d) 8)) br of
                None \<Rightarrow>
                  (True, d\<lparr>bit_reader := br,
                           repeat_count := signed_drop_bit 1 indicator_value\<rparr>)
              | Some (bytes, br') \<Rightarrow>
                  (True, d\<lparr>bit_reader := br',
                           repeat_count := signed_drop_bit 1 indicator_value,
                           current_value := store_bytes bytes (current_value d)\<rparr>))))"

text \<open>
  \<open>static_cast<int>\<close> of a counter above \<open>INT_MAX\<close> is negative; the batch length is
  then negative, and \<open>std::fill\<close> or the packed read over a range that ends before it
  starts is undefined behaviour. The model stops there with a fault.
\<close>

datatype rle_fault = NegativeRunLength

text \<open>
  The loop of \<open>GetBatch<T>\<close>, with \<open>T\<close> a word type. \<open>values\<close> is the caller's array,
  which must hold \<open>batch_size\<close> elements; \<open>values_read\<close> counts from its start. A repeated run stores copies of
  \<open>static_cast<T>(current_value_)\<close>; a literal run stores what the bit reader yields,
  and counts \<open>literal_batch\<close> values whatever the reader's own count (the comparison is
  a \<open>DCHECK\<close>). The loop ends on every input: each turn either stores a value or reads
  a header, which takes at least one byte (proved with the properties below).
\<close>

function GetBatch_loop ::
  "int \<Rightarrow> int \<Rightarrow> 'a::len word list \<Rightarrow> RleDecoder \<Rightarrow> rle_fault + (int \<times> 'a word list \<times> RleDecoder)"
where
  "GetBatch_loop batch_size values_read values d =
     (if values_read < batch_size then
        (if repeat_count d \<noteq> 0 then
           (if sint (repeat_count d) < 0 then Inl NegativeRunLength
            else
              (let repeat_batch = min (batch_size - values_read) (sint (repeat_count d))
               in GetBatch_loop batch_size (values_read + repeat_batch)
                    (write_at values (nat values_read)
                       (replicate (nat repeat_batch) (ucast (current_value d))))
                    (d\<lparr>repeat_count := repeat_count d - word_of_int repeat_batch\<rparr>)))
         else if literal_count d \<noteq> 0 then
           (if sint (literal_count d) < 0 then Inl NegativeRunLength
            else
              (let literal_batch = min (batch_size - values_read) (sint (literal_count d));
                   unpacked = BitReader_GetBatch (nat (bit_width d)) (nat literal_batch)
                                (bit_reader d)
               in GetBatch_loop batch_size (values_read + literal_batch)
                    (write_at values (nat values_read) (map ucast (fst unpacked)))
                    (d\<lparr>bit_reader := snd unpacked,
                       literal_count := literal_count d - word_of_int literal_batch\<rparr>)))
         else
           (case NextCounts d of
              (False, d') \<Rightarrow> Inr (values_read, values, d')
            | (True, d') \<Rightarrow> GetBatch_loop batch_size values_read values d'))
      else Inr (values_read, values, d))"
  by pat_completeness auto

definition GetBatch ::
  "int \<Rightarrow> 'a::len word list \<Rightarrow> RleDecoder \<Rightarrow> rle_fault + (int \<times> 'a word list \<times> RleDecoder)"
where
  "GetBatch batch_size values d = GetBatch_loop batch_size 0 values d"



text \<open>
  Decoders used in the examples. The stream \<open>[2, 7, 4]\<close> at bit width 8 holds the run
  "one copy of 7" and then the header of a run of two copies whose value byte is
  missing; \<open>decoder_after_first_run\<close> is the decoder once the first run is consumed.
  The stream \<open>[6, 9]\<close> holds the run "three copies of 9"; \<open>decoder_in_run\<close> is the
  decoder with one copy of that run left.
\<close>

definition decoder_after_first_run :: RleDecoder where
  "decoder_after_first_run =
     \<lparr>bit_reader = \<lparr>buffer = [2, 7, 4], bit_cursor = 16\<rparr>, bit_width = 8,
      current_value = 7, repeat_count = 0, literal_count = 0\<rparr>"

definition decoder_in_run :: RleDecoder where
  "decoder_in_run =
     \<lparr>bit_reader = \<lparr>buffer = [6, 9], bit_cursor = 16\<rparr>, bit_width = 8,
      current_value = 9, repeat_count = 1, literal_count = 0\<rparr>"

section \<open>ToGdfColumn and the compaction pass\<close>

text \<open>
  \<open>thrust::scatter(first, last, map, result)\<close> stores the k-th element of the input at
  \<open>result[map[k]]\<close>; \<open>thrust::copy_if\<close> over the counting iterator \<open>0 .. batch_size\<close> with
  the levels as stencil keeps, in order, the indices whose level satisfies the
  predicate. Both are taken from the Thrust library's contract.
\<close>

fun scatter :: "'a list \<Rightarrow> nat list \<Rightarrow> 'a list \<Rightarrow> 'a list" where
  "scatter (x # xs) (i # is) result = scatter xs is (result[i := x])"
| "scatter xs is result = result"

definition is_equal :: "int16 \<Rightarrow> int16 \<Rightarrow> bool" where
  "is_equal max_definition_level x = (sint x = sint max_definition_level)"

definition compact_to_sparse_for_nulls ::
  "'a list \<Rightarrow> 'a list \<Rightarrow> int16 list \<Rightarrow> int16 \<Rightarrow> int \<Rightarrow> 'a list"
where
  "compact_to_sparse_for_nulls data_in data_out definition_levels max_definition_level batch_size =
     (let work_space = filter (\<lambda>i. is_equal max_definition_level (definition_levels ! i))
                         [0 ..< nat batch_size];
          num_not_null = length work_space
      in scatter (take num_not_null data_in) work_space data_out)"

text \<open>
  \<open>get_number_of_bytes_for_valid\<close>, with \<open>sizeof(gdf_valid_type) = 1\<close> and
  \<open>GDF_VALID_BITSIZE = 8\<close> (both from gdf.h).
\<close>

definition get_number_of_bytes_for_valid :: "nat \<Rightarrow> nat" where
  "get_number_of_bytes_for_valid column_size = 1 * (column_size + 8 - 1) div 8"

text \<open>
  The variables of \<open>ToGdfColumn\<close> that its read loop changes: the reader itself, the
  caller's level array and value array, the host bitmap and the three counters.
\<close>

record 'v ToGdfColumn_state =
  this_reader :: "'v ColumnReader"
  definition_levels_array :: "int16 list"
  values_array :: "'v list"
  h_valid_bits :: "uint8 list"
  rows_read_total :: int
  null_count_total :: int
  values_read_counter :: int

text \<open>
  The loop \<open>while (this->HasNext()) { ... }\<close>. \<open>values_to_read\<close> is fixed before the
  loop, so the loop need not end; the model counts iterations and gives \<open>None\<close> when
  the count runs out. \<open>ReadBatch\<close> stores the levels from
  \<open>definition_levels + rows_read_total\<close> on and the values from
  \<open>values + values_read_counter\<close> on; the bitmap builder then reads \<open>rows_read\<close> levels
  from the same place.
\<close>

fun ToGdfColumn_loop ::
  "nat \<Rightarrow> int \<Rightarrow> 'v ToGdfColumn_state \<Rightarrow> (ParquetException + 'v ToGdfColumn_state) option"
where
  "ToGdfColumn_loop 0 values_to_read st = None"
| "ToGdfColumn_loop (Suc fuel) values_to_read st =
     (case HasNext (this_reader st) of
        Inl e \<Rightarrow> Some (Inl e)
      | Inr (False, r1) \<Rightarrow> Some (Inr (st\<lparr>this_reader := r1\<rparr>))
      | Inr (True, r1) \<Rightarrow>
          (case ReadBatch values_to_read True False r1 of
             Inl e \<Rightarrow> Some (Inl e)
           | Inr (res, r2) \<Rightarrow>
               (let rows_read = rb_total_values res;
                    levels' = write_at (definition_levels_array st) (nat (rows_read_total st))
                                (rb_def_levels res);
                    values' = write_at (values_array st) (nat (values_read_counter st))
                                (rb_values res)
                in case DefinitionLevelsToBitmap_flat
                          (take (nat rows_read) (drop (nat (rows_read_total st)) levels'))
                          (descr_max_definition_level r2) (null_count_total st)
                          (h_valid_bits st) (nat (rows_read_total st)) of
                     Inl e \<Rightarrow> Some (Inl e)
                   | Inr (null_count', bits') \<Rightarrow>
                       ToGdfColumn_loop fuel values_to_read
                         \<lparr>this_reader = r2, definition_levels_array = levels',
                          values_array = values', h_valid_bits = bits',
                          rows_read_total = rows_read_total st + rows_read,
                          null_count_total = null_count',
                          values_read_counter = values_read_counter st + rb_values_read res\<rparr>)))"

text \<open>
  What \<open>ToGdfColumn\<close> leaves behind: its return value, the reader, the level array, and
  \<open>column.data\<close> and \<open>column.valid\<close>.
\<close>

record 'v ToGdfColumn_result =
  rows_returned :: int
  reader_after :: "'v ColumnReader"
  definition_levels_after :: "int16 list"
  column_data :: "'v list"
  column_valid :: "uint8 list"

text \<open>
  After the loop: the host bitmap is copied over the first \<open>n_bytes\<close> bytes of
  \<open>column.valid\<close>, and when the row count differs from the count of values read the
  values are compacted: the first \<open>rows_read_total\<close> values and levels are copied to
  device vectors, and the copy of the values is scattered into \<open>values\<close>.
\<close>

definition ToGdfColumn_finish :: "uint8 list \<Rightarrow> 'v ToGdfColumn_state \<Rightarrow> 'v ToGdfColumn_result" where
  "ToGdfColumn_finish valid_bits st =
     \<lparr>rows_returned = rows_read_total st,
      reader_after = this_reader st,
      definition_levels_after = definition_levels_array st,
      column_data =
        (if rows_read_total st \<noteq> values_read_counter st then
           (let d_values_in = take (nat (rows_read_total st)) (values_array st);
                d_levels = take (nat (rows_read_total st)) (definition_levels_array st)
            in compact_to_sparse_for_nulls d_values_in (values_array st) d_levels
                 (descr_max_definition_level (this_reader st)) (rows_read_total st))
         else values_array st),
      column_valid = write_at valid_bits 0 (h_valid_bits st)\<rparr>"

text \<open>
  \<open>ToGdfColumn(definition_levels, repetition_levels, column)\<close>. \<open>heap\<close> gives the bytes
  that \<open>new std::uint8_t[n_bytes]\<close> happens to hold. \<open>values_to_read\<close> is
  \<open>std::min<size_t>(8, num_buffered_values_ - num_decoded_values_)\<close>: a negative
  difference converts to a \<open>size_t\<close> above 8.
\<close>

definition ToGdfColumn ::
  "nat \<Rightarrow> (nat \<Rightarrow> uint8) \<Rightarrow> int16 list \<Rightarrow> 'v list \<Rightarrow> uint8 list \<Rightarrow> 'v ColumnReader
     \<Rightarrow> (ParquetException + 'v ToGdfColumn_result) option"
where
  "ToGdfColumn fuel heap definition_levels values valid_bits r =
     (let d = num_buffered_values r - num_decoded_values r;
          values_to_read = (if d < 0 then 8 else min 8 d);
          n_bytes = get_number_of_bytes_for_valid (nat (num_buffered_values r));
          st0 = \<lparr>this_reader = r, definition_levels_array = definition_levels,
                 values_array = values, h_valid_bits = map heap [0 ..< n_bytes],
                 rows_read_total = 0, null_count_total = 0, values_read_counter = 0\<rparr>
      in case ToGdfColumn_loop fuel values_to_read st0 of
           None \<Rightarrow> None
         | Some (Inl e) \<Rightarrow> Some (Inl e)
         | Some (Inr st) \<Rightarrow> Some (Inr (ToGdfColumn_finish valid_bits st)))"

text \<open>
  The reader of the end-to-end example: a column with \<open>max_definition_level = 1\<close> whose
  current page is the example page (\<open>HasNext\<close> has fetched it) and whose source is
  exhausted.
\<close>

definition reader_on_example_page :: "int ColumnReader" where
  "reader_on_example_page =
     (ColumnReader_init 1 0 [])
       \<lparr>current_page := Some example_data_page, decoders := {PLAIN},
        current_decoder := Some PLAIN, current_decoder_values := [5, 7],
        num_buffered_values := 3, definition_level_decoder := [1, 0, 1]\<rparr>"

section \<open>Properties of the bitmap builders\<close>

lemma ByteWithBit_eq: "k < 8 \<Longrightarrow> ByteWithBit k = push_bit k 1"
proof -
  assume "k < 8"
  then have "k \<in> {0,1,2,3,4,5,6,7}" by auto
  then show ?thesis unfolding ByteWithBit_def by auto
qed

lemma FlippedBitmask_eq: "k < 8 \<Longrightarrow> FlippedBitmask k = NOT (push_bit k 1)"
proof -
  assume "k < 8"
  then have "k \<in> {0,1,2,3,4,5,6,7}" by auto
  then show ?thesis unfolding FlippedBitmask_def by auto
qed

lemma div_mod_eq_iff: "(j div 8 = i div 8 \<and> j mod 8 = i mod 8) = (j = (i::nat))"
  by (metis div_mult_mod_eq)

lemma GetBit_TurnBitOn:
  assumes "i < 8 * length bits"
  shows "GetBit (TurnBitOn bits i) j = (j = i \<or> GetBit bits j)"
proof -
  have l: "i div 8 < length bits" using assms by auto
  have m: "i mod 8 < 8" by simp
  show ?thesis
  proof (cases "j div 8 = i div 8")
    case True
    then show ?thesis using l div_mod_eq_iff[of j i]
      by (auto simp: GetBit_def TurnBitOn_def ByteWithBit_eq[OF m] bit_simps)
  next
    case False
    then show ?thesis using l
      by (auto simp: GetBit_def TurnBitOn_def)
  qed
qed

lemma GetBit_TurnBitOff:
  assumes "i < 8 * length bits"
  shows "GetBit (TurnBitOff bits i) j = (j \<noteq> i \<and> GetBit bits j)"
proof -
  have l: "i div 8 < length bits" using assms by auto
  have m: "i mod 8 < 8" by simp
  show ?thesis
  proof (cases "j div 8 = i div 8")
    case True
    then show ?thesis using l div_mod_eq_iff[of j i]
      by (auto simp: GetBit_def TurnBitOff_def FlippedBitmask_eq[OF m] bit_simps)
  next
    case False
    then show ?thesis using l
      by (auto simp: GetBit_def TurnBitOff_def)
  qed
qed

lemma length_TurnBitOn [simp]: "length (TurnBitOn bits i) = length bits"
  by (simp add: TurnBitOn_def)

lemma length_TurnBitOff [simp]: "length (TurnBitOff bits i) = length bits"
  by (simp add: TurnBitOff_def)

lemma flat_loop_spec:
  assumes "\<forall>l\<in>set ls. sint l \<le> sint md"
      and "start_offset w + position w + length ls \<le> 8 * length (bitmap w)"
  shows "\<exists>w'. DefinitionLevelsToBitmap_flat_loop ls md w nc =
            Inr (w', nc + int (length (filter (\<lambda>l. sint l < sint md) ls)))
          \<and> position w' = position w + length ls
          \<and> start_offset w' = start_offset w
          \<and> length (bitmap w') = length (bitmap w)
          \<and> (\<forall>j. GetBit (bitmap w') j =
                (if start_offset w + position w \<le> j \<and> j < start_offset w + position w + length ls
                 then sint (ls ! (j - (start_offset w + position w))) = sint md
                 else GetBit (bitmap w) j))"
  using assms
proof (induction ls arbitrary: w nc)
  case Nil
  then show ?case by auto
next
  case (Cons l ls)
  let ?p = "start_offset w + position w"
  have inb: "?p < 8 * length (bitmap w)" using Cons.prems(2) by simp
  have le: "sint l \<le> sint md" using Cons.prems(1) by simp
  show ?case
  proof (cases "sint l = sint md")
    case True
    let ?w = "BitmapWriter_Next (BitmapWriter_Set w)"
    have a: "\<forall>l\<in>set ls. sint l \<le> sint md" using Cons.prems(1) by simp
    have b: "start_offset ?w + position ?w + length ls \<le> 8 * length (bitmap ?w)"
      using Cons.prems(2) by (simp add: BitmapWriter_Next_def BitmapWriter_Set_def)
    from Cons.IH[OF a b, of nc] obtain w' where
      w': "DefinitionLevelsToBitmap_flat_loop ls md ?w nc =
            Inr (w', nc + int (length (filter (\<lambda>l. sint l < sint md) ls)))"
          "position w' = position ?w + length ls"
          "start_offset w' = start_offset ?w"
          "length (bitmap w') = length (bitmap ?w)"
          "\<forall>j. GetBit (bitmap w') j =
                (if start_offset ?w + position ?w \<le> j \<and> j < start_offset ?w + position ?w + length ls
                 then sint (ls ! (j - (start_offset ?w + position ?w))) = sint md
                 else GetBit (bitmap ?w) j)"
      by blast
    have bits: "GetBit (bitmap w') j =
                (if ?p \<le> j \<and> j < ?p + length (l # ls)
                 then sint ((l # ls) ! (j - ?p)) = sint md
                 else GetBit (bitmap w) j)" for j
    proof -
      consider "j < ?p" | "j = ?p" | "?p < j" by linarith
      then show ?thesis
      proof cases
        case 1
        then show ?thesis using w'(5) inb
          by (simp add: BitmapWriter_Next_def BitmapWriter_Set_def GetBit_TurnBitOn)
      next
        case 2
        then show ?thesis using w'(5) inb True
          by (simp add: BitmapWriter_Next_def BitmapWriter_Set_def GetBit_TurnBitOn)
      next
        case 3
        then obtain d where d: "j = Suc (?p + d)" by (metis less_iff_Suc_add add_Suc_right)
        show ?thesis using w'(5)[rule_format, of j] inb 3 unfolding d
          by (simp add: BitmapWriter_Next_def BitmapWriter_Set_def GetBit_TurnBitOn)
      qed
    qed
    show ?thesis
      apply (rule exI[of _ w'])
      using True w'(1-4) bits
      by (simp add: BitmapWriter_Next_def BitmapWriter_Set_def)
  next
    case False
    then have lt: "sint l < sint md" using le by simp
    let ?w = "BitmapWriter_Next (BitmapWriter_Clear w)"
    have a: "\<forall>l\<in>set ls. sint l \<le> sint md" using Cons.prems(1) by simp
    have b: "start_offset ?w + position ?w + length ls \<le> 8 * length (bitmap ?w)"
      using Cons.prems(2) by (simp add: BitmapWriter_Next_def BitmapWriter_Clear_def)
    from Cons.IH[OF a b, of "nc + 1"] obtain w' where
      w': "DefinitionLevelsToBitmap_flat_loop ls md ?w (nc + 1) =
            Inr (w', nc + 1 + int (length (filter (\<lambda>l. sint l < sint md) ls)))"
          "position w' = position ?w + length ls"
          "start_offset w' = start_offset ?w"
          "length (bitmap w') = length (bitmap ?w)"
          "\<forall>j. GetBit (bitmap w') j =
                (if start_offset ?w + position ?w \<le> j \<and> j < start_offset ?w + position ?w + length ls
                 then sint (ls ! (j - (start_offset ?w + position ?w))) = sint md
                 else GetBit (bitmap ?w) j)"
      by blast
    have bits: "GetBit (bitmap w') j =
                (if ?p \<le> j \<and> j < ?p + length (l # ls)
                 then sint ((l # ls) ! (j - ?p)) = sint md
                 else GetBit (bitmap w) j)" for j
    proof -
      consider "j < ?p" | "j = ?p" | "?p < j" by linarith
      then show ?thesis
      proof cases
        case 1
        then show ?thesis using w'(5) inb
          by (simp add: BitmapWriter_Next_def BitmapWriter_Clear_def GetBit_TurnBitOff)
      next
        case 2
        then show ?thesis using w'(5) inb False
          by (simp add: BitmapWriter_Next_def BitmapWriter_Clear_def GetBit_TurnBitOff)
      next
        case 3
        then obtain d where d: "j = Suc (?p + d)" by (metis less_iff_Suc_add add_Suc_right)
        show ?thesis using w'(5)[rule_format, of j] inb 3 unfolding d
          by (simp add: BitmapWriter_Next_def BitmapWriter_Clear_def GetBit_TurnBitOff)
      qed
    qed
    show ?thesis
      apply (rule exI[of _ w'])
      using False lt w'(1-4) bits
      by (simp add: BitmapWriter_Next_def BitmapWriter_Clear_def)
  qed
qed

lemma loop_no_repetition:
  "\<not> 0 < sint mr \<Longrightarrow>
     DefinitionLevelsToBitmap_loop ls md mr w nc = DefinitionLevelsToBitmap_flat_loop ls md w nc"
  by (induction ls arbitrary: w nc) auto

text \<open>
  Claim C2. With \<open>max_repetition_level = 0\<close> and every level at most
  \<open>max_definition_level\<close>, both overloads of \<open>_DefinitionLevelsToBitmap\<close> succeed; bit
  \<open>valid_bits_offset + i\<close> of the bitmap is set if and only if \<open>def_levels[i]\<close> equals
  \<open>max_definition_level\<close>; the null count grows by the number of levels strictly below
  the maximum; the writer ends at position \<open>L\<close>; and no bit outside the \<open>L\<close> bits
  written changes. The bitmap must hold the bits written.
\<close>

theorem C2_bitmap_valid_iff_max_level:
  assumes "\<forall>l\<in>set def_levels. sint l \<le> sint max_definition_level"
      and "valid_bits_offset + length def_levels \<le> 8 * length valid_bits"
  shows "case DefinitionLevelsToBitmap def_levels max_definition_level 0 null_count0
                valid_bits valid_bits_offset of
           Inl e \<Rightarrow> False
         | Inr (values_read, null_count0', bits') \<Rightarrow>
             values_read = int (length def_levels)
           \<and> null_count0' = null_count0
                 + int (length (filter (\<lambda>l. sint l < sint max_definition_level) def_levels))
           \<and> DefinitionLevelsToBitmap_flat def_levels max_definition_level null_count0
                 valid_bits valid_bits_offset = Inr (null_count0', bits')
           \<and> length bits' = length valid_bits
           \<and> (\<forall>i<length def_levels.
                 GetBit bits' (valid_bits_offset + i) = (def_levels ! i = max_definition_level))
           \<and> (\<forall>j. j < valid_bits_offset \<or> valid_bits_offset + length def_levels \<le> j \<longrightarrow>
                 GetBit bits' j = GetBit valid_bits j)"
proof -
  let ?w = "BitmapWriter_init valid_bits valid_bits_offset"
  have b: "start_offset ?w + position ?w + length def_levels \<le> 8 * length (bitmap ?w)"
    using assms(2) by (simp add: BitmapWriter_init_def)
  from flat_loop_spec[OF assms(1) b, of null_count0] obtain w' where
    w': "DefinitionLevelsToBitmap_flat_loop def_levels max_definition_level ?w null_count0 =
           Inr (w', null_count0 + int (length (filter (\<lambda>l. sint l < sint max_definition_level) def_levels)))"
        "position w' = position ?w + length def_levels"
        "length (bitmap w') = length (bitmap ?w)"
        "\<forall>j. GetBit (bitmap w') j =
           (if start_offset ?w + position ?w \<le> j \<and> j < start_offset ?w + position ?w + length def_levels
            then sint (def_levels ! (j - (start_offset ?w + position ?w))) = sint max_definition_level
            else GetBit (bitmap ?w) j)"
    by blast
  have r: "DefinitionLevelsToBitmap_loop def_levels max_definition_level 0 ?w null_count0 =
           DefinitionLevelsToBitmap_flat_loop def_levels max_definition_level ?w null_count0"
    by (rule loop_no_repetition) simp
  have 1: "DefinitionLevelsToBitmap def_levels max_definition_level 0 null_count0
               valid_bits valid_bits_offset =
             Inr (int (length def_levels),
                  null_count0 + int (length (filter (\<lambda>l. sint l < sint max_definition_level) def_levels)),
                  bitmap w')"
    using w'(1,2) r by (simp add: DefinitionLevelsToBitmap_def BitmapWriter_init_def)
  have 2: "DefinitionLevelsToBitmap_flat def_levels max_definition_level null_count0
               valid_bits valid_bits_offset =
             Inr (null_count0 + int (length (filter (\<lambda>l. sint l < sint max_definition_level) def_levels)),
                  bitmap w')"
    using w'(1) by (simp add: DefinitionLevelsToBitmap_flat_def)
  have 3: "length (bitmap w') = length valid_bits"
    using w'(3) by (simp add: BitmapWriter_init_def)
  have 4: "\<forall>i<length def_levels.
               GetBit (bitmap w') (valid_bits_offset + i) = (def_levels ! i = max_definition_level)"
    using w'(4) by (simp add: BitmapWriter_init_def word_eq_iff_signed [where ?'a = int])
  have 5: "\<forall>j. j < valid_bits_offset \<or> valid_bits_offset + length def_levels \<le> j \<longrightarrow>
               GetBit (bitmap w') j = GetBit valid_bits j"
    using w'(4) by (auto simp: BitmapWriter_init_def)
  show ?thesis unfolding 1 using 2 3 4 5 by simp
qed

text \<open>
  The instance of the specification: levels \<open>[2,2,1,2,0,2]\<close> with
  \<open>max_definition_level = 2\<close> give the mask bits \<open>[1,1,0,1,0,1]\<close> (the byte \<open>43\<close>) and
  a null count of 2.
\<close>

theorem C2_bitmap_example_witness:
  "0 + length [2, 2, 1, 2, 0, 2 :: int16] \<le> 8 * length [0 :: uint8]
   \<and> DefinitionLevelsToBitmap [2, 2, 1, 2, 0, 2] 2 0 0 [0] 0 = Inr (6, 2, [43])
   \<and> DefinitionLevelsToBitmap_flat [2, 2, 1, 2, 0, 2] 2 0 [0] 0 = Inr (2, [43])
   \<and> map (GetBit [43]) [0, 1, 2, 3, 4, 5] = [True, True, False, True, False, True]"
proof -
  have h1: "\<forall>l\<in>set [2, 2, 1, 2, 0, 2 :: int16]. sint l \<le> sint (2 :: int16)" by simp
  have h2: "0 + length [2, 2, 1, 2, 0, 2 :: int16] \<le> 8 * length [0 :: uint8]" by simp
  have e: "DefinitionLevelsToBitmap [2, 2, 1, 2, 0, 2] 2 0 0 [0] 0 = Inr (6, 2, [43])"
    by (simp add: DefinitionLevelsToBitmap_def BitmapWriter_init_def BitmapWriter_Next_def
        BitmapWriter_Set_def BitmapWriter_Clear_def TurnBitOn_def TurnBitOff_def
        ByteWithBit_def FlippedBitmask_def)
  note t = C2_bitmap_valid_iff_max_level[OF h1 h2, of 0, unfolded e, simplified]
  have f: "DefinitionLevelsToBitmap_flat [2, 2, 1, 2, 0, 2] 2 0 [0] 0 = Inr (2, [43])"
    using t by simp
  have b: "\<forall>i<6. GetBit [43] i = ([2, 2, 1, 2, 0, 2 :: int16] ! i = 2)"
    using t by simp
  have g: "map (GetBit [43]) [0, 1, 2, 3, 4, 5] = [True, True, False, True, False, True]"
    using b[rule_format, of 0] b[rule_format, of 1] b[rule_format, of 2]
      b[rule_format, of 3] b[rule_format, of 4] b[rule_format, of 5]
    by simp
  show ?thesis using h2 e f g by blast
qed

text \<open>
  Claim C6 asks for a \<open>ProtocolError\<close> whenever some level exceeds
  \<open>max_definition_level\<close>. The code run on the level \<open>[3]\<close> with maximum 2: with
  \<open>max_repetition_level = 1\<close> the level falls into the \<open>continue\<close> branch and the call
  returns normally, having written no bit and counted no null; with
  \<open>max_repetition_level = 0\<close>, and in the overload without a repetition level, the
  exception is thrown; \<open>_GenerateNullBitmap\<close> counts the level as a null.
\<close>

theorem C6_level_above_max_with_repetition_is_skipped:
  "DefinitionLevelsToBitmap [3] 2 1 0 [0] 0 = Inr (0, 0, [0])
   \<and> DefinitionLevelsToBitmap [3] 2 0 0 [0] 0 = Inl (ParquetException ''definition level exceeds maximum'')
   \<and> DefinitionLevelsToBitmap_flat [3] 2 0 [0] 0 = Inl (ParquetException ''definition level exceeds maximum'')
   \<and> GenerateNullBitmap [3] 2 [0] = (1, [0])"
  by (simp add: DefinitionLevelsToBitmap_def DefinitionLevelsToBitmap_flat_def
      GenerateNullBitmap_def BitmapWriter_init_def)

section \<open>Properties of the column filter\<close>

lemma IndexOf_less_iff: "IndexOf cn n < length cn \<longleftrightarrow> n \<in> set cn"
  by (induction cn) auto

lemma IndicesFrom_loop_eq:
  "IndicesFrom_loop names cn acc = acc @ map (IndexOf cn) (filter (\<lambda>n. n \<in> set cn) names)"
  by (induction names arbitrary: acc) (auto simp: Contains_def Size_def IndexOf_less_iff Let_def)

lemma IndicesFrom_skip:
  "n \<notin> set cn \<Longrightarrow> xs @ ys \<noteq> [] \<Longrightarrow> IndicesFrom (xs @ n # ys) cn = IndicesFrom (xs @ ys) cn"
  by (auto simp: IndicesFrom_def IndicesFrom_loop_eq)

lemma AllocateGdfColumns_ok: "AllocateGdfColumns ts = GDF_SUCCESS"
  by (induction ts) (auto split: ParquetType.splits)

lemma ReadFile_row_groups_nil: "ReadFile_row_groups fr gs [] = Inr GDF_SUCCESS"
  by (induction gs) auto

text \<open>
  Claim C10, amended. For a filter that names at least one column: \<open>IndicesFrom\<close> keeps
  the index of each requested name that the file contains and drops every other name
  without reporting it; when \<open>read_parquet\<close> returns \<open>GDF_SUCCESS\<close> the length it stores
  is the number of requested names that matched; a name the file does not contain can be
  removed from the filter (as long as a name remains) without changing the result of
  the call; and a filter none of whose names match gives \<open>GDF_SUCCESS\<close> with length 0 on
  a file that opens and has rows.
\<close>

theorem C10_unmatched_names_are_skipped:
  "(names \<noteq> [] \<longrightarrow>
      IndicesFrom (ColumnFilter (Some names)) column_names =
        map (IndexOf column_names) (filter (\<lambda>n. n \<in> set column_names) names))
   \<and> (names \<noteq> [] \<and> file_system filename = Some file_reader
        \<and> read_parquet file_system heap_ok filename engine (Some names) = Inr (GDF_SUCCESS, out)
      \<longrightarrow> out = Some (matched_names (ColumnNames file_reader) names))
   \<and> (file_system filename = Some file_reader \<and> n \<notin> set (ColumnNames file_reader)
        \<and> xs @ ys \<noteq> []
      \<longrightarrow> read_parquet file_system heap_ok filename engine (Some (xs @ n # ys)) =
          read_parquet file_system heap_ok filename engine (Some (xs @ ys)))
   \<and> (names \<noteq> [] \<and> matched_names (ColumnNames file_reader) names = 0
        \<and> file_system filename = Some file_reader
        \<and> CheckMinimalData file_reader = GDF_SUCCESS \<and> heap_ok
      \<longrightarrow> read_parquet file_system heap_ok filename None (Some names) = Inr (GDF_SUCCESS, Some 0))"
proof (intro conjI impI)
  assume "names \<noteq> []"
  then show "IndicesFrom (ColumnFilter (Some names)) column_names =
        map (IndexOf column_names) (filter (\<lambda>n. n \<in> set column_names) names)"
    by (simp add: IndicesFrom_def ColumnFilter_def IndicesFrom_loop_eq)
next
  assume a: "names \<noteq> [] \<and> file_system filename = Some file_reader
        \<and> read_parquet file_system heap_ok filename engine (Some names) = Inr (GDF_SUCCESS, out)"
  then show "out = Some (matched_names (ColumnNames file_reader) names)"
    by (auto simp: read_parquet_def Let_def IndicesFrom_def ColumnFilter_def IndicesFrom_loop_eq
        matched_names_def split: if_splits sum.splits)
next
  assume a: "file_system filename = Some file_reader \<and> n \<notin> set (ColumnNames file_reader)
        \<and> xs @ ys \<noteq> []"
  then have "IndicesFrom (xs @ n # ys) (ColumnNames file_reader) =
             IndicesFrom (xs @ ys) (ColumnNames file_reader)"
    by (simp add: IndicesFrom_skip)
  then show "read_parquet file_system heap_ok filename engine (Some (xs @ n # ys)) =
          read_parquet file_system heap_ok filename engine (Some (xs @ ys))"
    using a by (simp add: read_parquet_def ColumnFilter_def)
next
  assume a: "names \<noteq> [] \<and> matched_names (ColumnNames file_reader) names = 0
        \<and> file_system filename = Some file_reader
        \<and> CheckMinimalData file_reader = GDF_SUCCESS \<and> heap_ok"
  then have "IndicesFrom names (ColumnNames file_reader) = []"
    by (simp add: IndicesFrom_def IndicesFrom_loop_eq matched_names_def)
  then show "read_parquet file_system heap_ok filename None (Some names) = Inr (GDF_SUCCESS, Some 0)"
    using a by (simp add: read_parquet_def ColumnFilter_def ReadFile_def ReadFile_row_groups_nil
        ColumnDescriptorsFrom_def)
qed

lemma example_names: "ColumnNames example_file = [''a'', ''b'']"
  by (simp add: ColumnNames_def example_file_def)

lemma example_read_b_zzz:
  "read_parquet example_file_system True ''f.parquet'' None (Some [''b'', ''zzz'']) =
     Inr (GDF_SUCCESS, Some 1)"
  by (simp add: read_parquet_def example_file_system_def example_file_def CheckMinimalData_def
      ColumnNames_def ColumnFilter_def IndicesFrom_def Contains_def Size_def
      ColumnDescriptorsFrom_def ReadFile_def)

theorem C10_unmatched_names_witness:
  "[''b'', ''zzz''] \<noteq> []
   \<and> example_file_system ''f.parquet'' = Some example_file
   \<and> ''zzz'' \<notin> set (ColumnNames example_file)
   \<and> IndicesFrom (ColumnFilter (Some [''b'', ''zzz''])) (ColumnNames example_file) = [1]
   \<and> read_parquet example_file_system True ''f.parquet'' None (Some [''b'', ''zzz'']) =
       Inr (GDF_SUCCESS, Some 1)
   \<and> matched_names (ColumnNames example_file) [''b'', ''zzz''] = 1
   \<and> read_parquet example_file_system True ''f.parquet'' None (Some [''b'']) =
       Inr (GDF_SUCCESS, Some 1)
   \<and> matched_names (ColumnNames example_file) [''zzz''] = 0
   \<and> CheckMinimalData example_file = GDF_SUCCESS
   \<and> read_parquet example_file_system True ''f.parquet'' None (Some [''zzz'']) =
       Inr (GDF_SUCCESS, Some 0)"
proof -
  have fs: "example_file_system ''f.parquet'' = Some example_file"
    by (simp add: example_file_system_def)
  have z: "''zzz'' \<notin> set (ColumnNames example_file)" by (simp add: example_names)
  have m1: "matched_names (ColumnNames example_file) [''b'', ''zzz''] = 1"
    by (simp add: matched_names_def example_names)
  have m0: "matched_names (ColumnNames example_file) [''zzz''] = 0"
    by (simp add: matched_names_def example_names)
  have cm: "CheckMinimalData example_file = GDF_SUCCESS"
    by (simp add: CheckMinimalData_def example_file_def)
  have ne: "[''b''] @ [] \<noteq> ([] :: string list)" by simp
  have ne2: "[''zzz''] \<noteq> ([] :: string list)" by simp
  note t1 = C10_unmatched_names_are_skipped[of "[''b'', ''zzz'']" "ColumnNames example_file"
      example_file_system "''f.parquet''" example_file True None "Some 1" "''zzz''" "[''b'']" "[]"]
  note t2 = C10_unmatched_names_are_skipped[of "[''zzz'']" "ColumnNames example_file"
      example_file_system "''f.parquet''" example_file True None "Some 0" "''zzz''" "[''b'']" "[]"]
  have i: "IndicesFrom (ColumnFilter (Some [''b'', ''zzz''])) (ColumnNames example_file) = [1]"
    using conjunct1[OF t1] by (simp add: example_names)
  have "read_parquet example_file_system True ''f.parquet'' None (Some ([''b''] @ ''zzz'' # [])) =
        read_parquet example_file_system True ''f.parquet'' None (Some ([''b''] @ []))"
    using conjunct1[OF conjunct2[OF conjunct2[OF t1]]] fs z ne by blast
  then have r1: "read_parquet example_file_system True ''f.parquet'' None (Some [''b'']) =
       Inr (GDF_SUCCESS, Some 1)"
    using example_read_b_zzz by simp
  have r0: "read_parquet example_file_system True ''f.parquet'' None (Some [''zzz'']) =
       Inr (GDF_SUCCESS, Some 0)"
    using conjunct2[OF conjunct2[OF conjunct2[OF t2]]] fs m0 cm ne2 by blast
  show ?thesis using fs z i example_read_b_zzz m1 r1 m0 cm r0 by simp
qed

text \<open>
  Claim C10 as stated speaks of every non-null \<open>columns\<close> argument. The array that holds
  only the terminating null pointer is non-null and requests no name: \<open>IndicesFrom\<close>
  then selects every column, so the stored length is 2 on the example file while no
  requested name matched.
\<close>

theorem C10_empty_filter_counterexample:
  "read_parquet example_file_system True ''f.parquet'' None (Some []) = Inr (GDF_SUCCESS, Some 2)
   \<and> matched_names (ColumnNames example_file) [] = 0"
  by (simp add: read_parquet_def example_file_system_def example_file_def CheckMinimalData_def
      ColumnNames_def ColumnFilter_def IndicesFrom_def Size_def matched_names_def
      ColumnDescriptorsFrom_def ReadFile_def)

section \<open>Properties of the column reader\<close>





text \<open>
  Claim C9. For a column with \<open>max_definition_level > 0\<close>, \<open>ReadBatch\<close> with a null
  \<open>def_levels\<close> pointer does what \<open>HasNext\<close> decides: its exception is passed on; on
  \<open>false\<close> the call returns 0 rows and 0 values; on \<open>true\<close> no definition level is
  decoded (none is stored, and the level decoder keeps every level it had), the value
  decoder is asked for the batch size clamped to the buffered values that remain, and
  the returned row count is the number of values the decoder produced, by which
  \<open>num_decoded_values_\<close> grows. No exception arises in \<open>ReadBatch\<close> itself.
\<close>

theorem C9_ReadBatch_without_def_levels:
  assumes "0 < sint (descr_max_definition_level r)"
  shows "case HasNext r of
           Inl e \<Rightarrow> ReadBatch batch_size False rep_levels r = Inl e
         | Inr (False, r1) \<Rightarrow>
             ReadBatch batch_size False rep_levels r =
               Inr (\<lparr>rb_total_values = 0, rb_values_read = 0, rb_def_levels = [],
                     rb_rep_levels = [], rb_values = []\<rparr>, r1)
         | Inr (True, r1) \<Rightarrow>
             (case ReadBatch batch_size False rep_levels r of
                Inl e \<Rightarrow> False
              | Inr (res, r') \<Rightarrow>
                  rb_def_levels res = []
                \<and> definition_level_decoder r' = definition_level_decoder r1
                \<and> rb_values res =
                    take (nat (min batch_size (num_buffered_values r1 - num_decoded_values r1)))
                      (current_decoder_values r1)
                \<and> rb_values_read res = int (length (rb_values res))
                \<and> rb_total_values res = rb_values_read res
                \<and> num_decoded_values r' = num_decoded_values r1 + rb_values_read res)"
  by (auto simp: ReadBatch_def Let_def ReadValues_def ReadRepetitionLevels_def
      ConsumeBufferedValues_def split: sum.splits bool.splits prod.splits)

text \<open>
  On a new reader over the example page (three rows, one of them null) a batch of 8
  without a level buffer asks the value decoder for 3 values, gets the 2 the page holds
  and returns 2 rows; the three definition levels stay in the level decoder.
\<close>

theorem C9_ReadBatch_witness:
  "0 < sint (descr_max_definition_level (ColumnReader_init 1 0 [example_data_page] :: int ColumnReader))
   \<and> (case ReadBatch 8 False False (ColumnReader_init 1 0 [example_data_page]) of
        Inl e \<Rightarrow> False
      | Inr (res, r') \<Rightarrow>
          res = \<lparr>rb_total_values = 2, rb_values_read = 2, rb_def_levels = [],
                  rb_rep_levels = [], rb_values = [5, 7]\<rparr>
        \<and> definition_level_decoder r' = [1, 0, 1]
        \<and> num_buffered_values r' = 3
        \<and> num_decoded_values r' = 2)"
proof -
  have a: "0 < sint (descr_max_definition_level (ColumnReader_init 1 0 [example_data_page] :: int ColumnReader))"
    by (simp add: ColumnReader_init_def)
  have h: "HasNext (ColumnReader_init 1 0 [example_data_page]) = Inr (True, reader_on_example_page)"
    by code_simp
  note t = C9_ReadBatch_without_def_levels[OF a, of 8 False, unfolded h, simplified]
  have e: "ReadBatch 8 False False (ColumnReader_init 1 0 [example_data_page]) =
           Inr (\<lparr>rb_total_values = 2, rb_values_read = 2, rb_def_levels = [],
                  rb_rep_levels = [], rb_values = [5, 7]\<rparr>,
                reader_on_example_page\<lparr>current_decoder_values := [], num_decoded_values := 2\<rparr>)"
    by code_simp
  show ?thesis using a t unfolding e
    by (simp add: reader_on_example_page_def ColumnReader_init_def)
qed


section \<open>Properties of ToGdfColumn\<close>

lemma length_scatter [simp]: "length (scatter xs is out) = length out"
  by (induction xs "is" out rule: scatter.induct) auto






subsection \<open>A reader that has fetched no page\<close>

text \<open>
  \<open>values_to_read\<close> is computed once, before the loop, from the counters of the
  current page. On a reader that has not fetched a page both counters are zero, so
  \<open>values_to_read\<close> is 0: every \<open>ReadBatch\<close> then reads nothing from the page that
  \<open>HasNext\<close> has fetched, \<open>HasNext\<close> stays true, and the loop does not end. The caller
  has to call \<open>HasNext\<close> first.
\<close>

lemma ReadBatch_zero_on_loaded_page:
  assumes "num_buffered_values r \<noteq> 0" and "num_decoded_values r \<noteq> num_buffered_values r"
      and "0 \<le> num_buffered_values r - num_decoded_values r"
  shows "HasNext r = Inr (True, r)"
    and "ReadBatch 0 True False r =
           Inr (\<lparr>rb_total_values = 0, rb_values_read = 0, rb_def_levels = [],
                 rb_rep_levels = [], rb_values = []\<rparr>, r)"
proof -
  show h: "HasNext r = Inr (True, r)" using assms by (simp add: HasNext_def)
  show "ReadBatch 0 True False r =
           Inr (\<lparr>rb_total_values = 0, rb_values_read = 0, rb_def_levels = [],
                 rb_rep_levels = [], rb_values = []\<rparr>, r)"
    using assms(3)
    by (simp add: ReadBatch_def h Let_def ReadDefinitionLevels_def ReadValues_def
        ConsumeBufferedValues_def min_def)
qed

lemma ToGdfColumn_loop_zero_batch_never_ends:
  assumes "num_buffered_values (this_reader st) \<noteq> 0"
      and "num_decoded_values (this_reader st) \<noteq> num_buffered_values (this_reader st)"
      and "0 \<le> num_buffered_values (this_reader st) - num_decoded_values (this_reader st)"
  shows "ToGdfColumn_loop fuel 0 st = None"
proof (induction fuel)
  case 0
  then show ?case by simp
next
  case (Suc fuel)
  have b: "DefinitionLevelsToBitmap_flat [] md nc bits off = Inr (nc, bits)" for md nc bits off
    by (simp add: DefinitionLevelsToBitmap_flat_def BitmapWriter_init_def)
  have "ToGdfColumn_loop (Suc fuel) 0 st = ToGdfColumn_loop fuel 0 st"
    using ReadBatch_zero_on_loaded_page[OF assms]
    by (cases st) (simp add: b Let_def)
  then show ?case using Suc by simp
qed

lemma ToGdfColumn_on_new_reader_never_returns:
  "ToGdfColumn fuel heap definition_levels data valid_bits
     (ColumnReader_init 1 0 [example_data_page]) = None"
proof (cases fuel)
  case 0
  then show ?thesis by (simp add: ToGdfColumn_def ColumnReader_init_def)
next
  case (Suc f)
  let ?st0 = "\<lparr>this_reader = ColumnReader_init 1 0 [example_data_page],
                 definition_levels_array = definition_levels, values_array = data,
                 h_valid_bits = map heap [0 ..< 0],
                 rows_read_total = 0, null_count_total = 0, values_read_counter = 0\<rparr>"
  have h: "HasNext (ColumnReader_init 1 0 [example_data_page]) = Inr (True, reader_on_example_page)"
    by code_simp
  have p: "num_buffered_values reader_on_example_page \<noteq> 0"
      "num_decoded_values reader_on_example_page \<noteq> num_buffered_values reader_on_example_page"
      "0 \<le> num_buffered_values reader_on_example_page - num_decoded_values reader_on_example_page"
    by (simp_all add: reader_on_example_page_def ColumnReader_init_def)
  have b: "DefinitionLevelsToBitmap_flat [] md nc bits off = Inr (nc, bits)" for md nc bits off
    by (simp add: DefinitionLevelsToBitmap_flat_def BitmapWriter_init_def)
  have step: "ToGdfColumn_loop (Suc f) 0 ?st0 =
         ToGdfColumn_loop f 0 (?st0\<lparr>this_reader := reader_on_example_page\<rparr>)"
    using h ReadBatch_zero_on_loaded_page(2)[OF p]
    by (simp add: b Let_def)
  have "ToGdfColumn_loop f 0 (?st0\<lparr>this_reader := reader_on_example_page\<rparr>) = None"
    by (rule ToGdfColumn_loop_zero_batch_never_ends) (use p in simp_all)
  then show ?thesis using step Suc
    by (simp add: ToGdfColumn_def ColumnReader_init_def get_number_of_bytes_for_valid_def)
qed

section \<open>Properties of the RLE decoder\<close>

subsection \<open>Termination of the decoding loop\<close>

text \<open>
  A header that is read moves the cursor on, so the bits left in the buffer become
  fewer; a run step stores at least one value. The pair (bits left, values wanted)
  decreases lexicographically.
\<close>

lemma vlq_bytes_consumed:
  "vlq_bytes bytes shift v = (result, n) \<Longrightarrow> n \<le> length bytes \<and> (result \<noteq> None \<longrightarrow> 0 < n)"
proof (induction bytes arbitrary: shift v result n)
  case Nil
  then show ?case by simp
next
  case (Cons byte bytes)
  then show ?case
    by (auto simp: Let_def split: if_splits prod.splits)
qed

lemma GetVlqInt_progress:
  assumes "GetVlqInt br = (Some v, br')"
  shows "bits_left br' < bits_left br" and "buffer br' = buffer br"
proof -
  let ?p = "(bit_cursor br + 7) div 8"
  obtain n where n: "vlq_bytes (drop ?p (buffer br)) 0 0 = (Some v, n)"
    and br': "br' = br\<lparr>bit_cursor := 8 * (?p + n)\<rparr>"
    using assms by (auto simp: GetVlqInt_def Let_def split: prod.splits)
  from vlq_bytes_consumed[OF n] have "n \<le> length (buffer br) - ?p" "0 < n" by simp_all
  then show "bits_left br' < bits_left br" unfolding br' bits_left_def by simp
  show "buffer br' = buffer br" unfolding br' by simp
qed

lemma GetAligned_progress:
  "GetAligned k br = Some (bytes, br') \<Longrightarrow> bits_left br' \<le> bits_left br \<and> buffer br' = buffer br"
  by (auto simp: GetAligned_def Let_def bits_left_def split: if_splits)

lemma NextCounts_progress:
  assumes "NextCounts d = (True, d')"
  shows "bits_left (bit_reader d') < bits_left (bit_reader d)"
proof -
  obtain v br where g: "GetVlqInt (bit_reader d) = (Some v, br)"
    using assms by (auto simp: NextCounts_def split: prod.splits option.splits)
  have lt: "bits_left br < bits_left (bit_reader d)" by (rule GetVlqInt_progress(1)[OF g])
  show ?thesis
  proof (cases "v AND 1 \<noteq> 0")
    case True
    then show ?thesis using assms g lt by (auto simp: NextCounts_def)
  next
    case False
    show ?thesis
    proof (cases "GetAligned (nat (Ceil (bit_width d) 8)) br")
      case None
      then show ?thesis using assms g lt False by (auto simp: NextCounts_def)
    next
      case (Some a)
      then obtain bytes br' where a: "a = (bytes, br')" by (cases a)
      have "bits_left br' \<le> bits_left br"
        using GetAligned_progress[of _ br bytes br'] Some a by simp
      then show ?thesis using assms g lt False Some a by (auto simp: NextCounts_def)
    qed
  qed
qed

lemma BitReader_GetBatch_progress:
  "BitReader_GetBatch num_bits n br = (vals, br') \<Longrightarrow> bits_left br' \<le> bits_left br"
  by (auto simp: BitReader_GetBatch_def Let_def bits_left_def)

termination GetBatch_loop
proof (relation "measures [\<lambda>(batch_size, values_read, values, d). bits_left (bit_reader d),
                           \<lambda>(batch_size, values_read, values, d). nat (batch_size - values_read)]",
       goal_cases)
  case 1
  then show ?case by simp
next
  case (2 bs vr vals d rb)
  have "sint (repeat_count d) \<noteq> 0"
    using 2(2) by (metis signed_0 signed_word_eqI)
  then show ?case using 2 by auto
next
  case (3 bs vr vals d lb unpacked)
  have "bits_left (snd unpacked) \<le> bits_left (bit_reader d)"
    using 3(6) BitReader_GetBatch_progress[of _ _ "bit_reader d" "fst unpacked" "snd unpacked"]
    by simp
  moreover have "sint (literal_count d) \<noteq> 0"
    using 3(3) by (metis signed_0 signed_word_eqI)
  ultimately show ?case using 3 by auto
next
  case 4
  then show ?case by (auto dest: NextCounts_progress[OF sym])
qed

subsection \<open>The run counters\<close>

declare GetBatch_loop.simps [simp del]

lemma sint_nonzero: "(w :: uint32) \<noteq> 0 \<Longrightarrow> sint w \<noteq> 0"
  by (metis signed_0 signed_word_eqI)






lemma loop_done: "\<not> vr < bs \<Longrightarrow> GetBatch_loop bs vr vals d = Inr (vr, vals, d)"
  by (subst GetBatch_loop.simps) simp















subsection \<open>Decoding twice\<close>

lemma length_write_at [simp]: "length (write_at arr off xs) = length arr"
  by (induction arr off xs rule: write_at.induct) auto

lemma nth_write_at:
  "write_at arr off xs ! i =
     (if off \<le> i \<and> i < off + length xs \<and> i < length arr then xs ! (i - off) else arr ! i)"
proof (induction arr off xs rule: write_at.induct)
  case (1 arr off)
  then show ?case by auto
next
  case (2 arr off x xs)
  show ?case
  proof (cases "i = off")
    case True
    then show ?thesis using 2 by (cases "off < length arr") (auto simp: list_update_beyond)
  next
    case False
    then show ?thesis using 2 by (auto simp: nth_Cons')
  qed
qed

lemma write_at_same:
  assumes "length b = length a"
      and "\<forall>i. off \<le> i \<and> i < off + length xs \<longrightarrow> b ! i = write_at a off xs ! i"
  shows "write_at b off xs = b"
proof (rule nth_equalityI)
  show "length (write_at b off xs) = length b" by simp
next
  fix i assume "i < length (write_at b off xs)"
  then have i: "i < length b" by simp
  show "write_at b off xs ! i = b ! i"
  proof (cases "off \<le> i \<and> i < off + length xs")
    case True
    then have "b ! i = write_at a off xs ! i" using assms(2) by simp
    also have "\<dots> = xs ! (i - off)" using True i assms(1) by (simp add: nth_write_at)
    finally show ?thesis using True i by (simp add: nth_write_at)
  next
    case False
    then show ?thesis by (auto simp: nth_write_at)
  qed
qed

lemma length_BitReader_GetBatch:
  "length (fst (BitReader_GetBatch num_bits n br)) \<le> n"
proof (cases "bits_left br < num_bits * n")
  case True
  then have "0 < num_bits" by (cases num_bits) auto
  then have "bits_left br div num_bits < n"
    using True by (simp add: less_mult_imp_div_less mult.commute)
  then show ?thesis using True by (simp add: BitReader_GetBatch_def Let_def)
next
  case False
  then show ?thesis by (simp add: BitReader_GetBatch_def Let_def)
qed

lemma GetBatch_loop_keeps_front:
  "0 \<le> vr \<Longrightarrow> GetBatch_loop bs vr vals d = Inr (n, vals', d') \<Longrightarrow>
     length vals' = length vals \<and> (\<forall>i < nat vr. vals' ! i = vals ! i)"
proof (induction bs vr vals d rule: GetBatch_loop.induct)
  case (1 batch_size values_read vals d)
  note eq = GetBatch_loop.simps[of batch_size values_read vals d]
  show ?case
  proof (cases "values_read < batch_size")
    case False
    then show ?thesis using "1.prems" by (simp add: loop_done)
  next
    case lt: True
    show ?thesis
    proof (cases "repeat_count d \<noteq> 0")
      case rc: True
      show ?thesis
      proof (cases "sint (repeat_count d) < 0")
        case True
        then show ?thesis using "1.prems" lt rc by (simp add: eq)
      next
        case False
        let ?rb = "min (batch_size - values_read) (sint (repeat_count d))"
        let ?v1 = "write_at vals (nat values_read) (replicate (nat ?rb) (ucast (current_value d)))"
        have nz: "0 \<le> values_read + ?rb" using False lt "1.prems"(1) by simp
        have rec: "GetBatch_loop batch_size (values_read + ?rb) ?v1
                     (d\<lparr>repeat_count := repeat_count d - word_of_int ?rb\<rparr>) = Inr (n, vals', d')"
          using "1.prems"(2) lt rc False by (simp add: eq Let_def)
        from "1.IH"(1)[OF lt rc False refl nz rec]
        have a: "length vals' = length ?v1" "\<forall>i < nat (values_read + ?rb). vals' ! i = ?v1 ! i"
          by simp_all
        have "vals' ! i = vals ! i" if "i < nat values_read" for i
        proof -
          have "i < nat (values_read + ?rb)" using that False lt by simp
          then have "vals' ! i = ?v1 ! i" using a(2) by simp
          then show ?thesis using that by (simp add: nth_write_at)
        qed
        then show ?thesis using a(1) by simp
      qed
    next
      case rc: False
      show ?thesis
      proof (cases "literal_count d \<noteq> 0")
        case lc: True
        show ?thesis
        proof (cases "sint (literal_count d) < 0")
          case True
          then show ?thesis using "1.prems" lt rc lc by (simp add: eq)
        next
          case False
          let ?lb = "min (batch_size - values_read) (sint (literal_count d))"
          let ?u = "BitReader_GetBatch (nat (bit_width d)) (nat ?lb) (bit_reader d)"
          let ?v1 = "write_at vals (nat values_read) (map ucast (fst ?u))"
          have nz: "0 \<le> values_read + ?lb" using False lt "1.prems"(1) by simp
          have rec: "GetBatch_loop batch_size (values_read + ?lb) ?v1
                       (d\<lparr>bit_reader := snd ?u,
                          literal_count := literal_count d - word_of_int ?lb\<rparr>) = Inr (n, vals', d')"
            using "1.prems"(2) lt rc lc False by (simp add: eq Let_def)
          from "1.IH"(2)[OF lt rc lc False refl refl nz rec]
          have a: "length vals' = length ?v1" "\<forall>i < nat (values_read + ?lb). vals' ! i = ?v1 ! i"
            by simp_all
          have "vals' ! i = vals ! i" if "i < nat values_read" for i
          proof -
            have "i < nat (values_read + ?lb)" using that False lt by simp
            then have "vals' ! i = ?v1 ! i" using a(2) by simp
            then show ?thesis using that by (simp add: nth_write_at)
          qed
          then show ?thesis using a(1) by simp
        qed
      next
        case lc: False
        obtain ok d1 where nc: "NextCounts d = (ok, d1)" by (cases "NextCounts d")
        show ?thesis
        proof (cases ok)
          case True
          show ?thesis
            using "1.IH"(3)[OF lt rc lc nc[symmetric] _ "1.prems"(1)]
              "1.prems"(2) lt rc lc nc True
            by (simp add: eq)
        next
          case False
          then show ?thesis using "1.prems"(2) lt rc lc nc by (simp add: eq)
        qed
      qed
    qed
  qed
qed

lemma GetBatch_loop_again:
  "0 \<le> vr \<Longrightarrow> GetBatch_loop bs vr vals d = Inr (n, vals', d') \<Longrightarrow>
     GetBatch_loop bs vr vals' d = Inr (n, vals', d')"
proof (induction bs vr vals d rule: GetBatch_loop.induct)
  case (1 batch_size values_read vals d)
  note eq = GetBatch_loop.simps[of batch_size values_read vals d]
  note eq' = GetBatch_loop.simps[of batch_size values_read vals' d]
  show ?case
  proof (cases "values_read < batch_size")
    case False
    then show ?thesis using "1.prems" by (simp add: loop_done)
  next
    case lt: True
    show ?thesis
    proof (cases "repeat_count d \<noteq> 0")
      case rc: True
      show ?thesis
      proof (cases "sint (repeat_count d) < 0")
        case True
        then show ?thesis using "1.prems" lt rc by (simp add: eq)
      next
        case False
        let ?rb = "min (batch_size - values_read) (sint (repeat_count d))"
        let ?blk = "replicate (nat ?rb) (ucast (current_value d) :: 'a word)"
        let ?v1 = "write_at vals (nat values_read) ?blk"
        let ?d1 = "d\<lparr>repeat_count := repeat_count d - word_of_int ?rb\<rparr>"
        have rb0: "0 \<le> ?rb" using False lt by simp
        have nz: "0 \<le> values_read + ?rb" using rb0 "1.prems"(1) by simp
        have rec: "GetBatch_loop batch_size (values_read + ?rb) ?v1 ?d1 = Inr (n, vals', d')"
          using "1.prems"(2) lt rc False by (simp add: eq Let_def)
        from GetBatch_loop_keeps_front[OF nz rec]
        have a: "length vals' = length ?v1" "\<forall>i < nat (values_read + ?rb). vals' ! i = ?v1 ! i"
          by simp_all
        have same: "write_at vals' (nat values_read) ?blk = vals'"
        proof (rule write_at_same[where a = vals])
          show "length vals' = length vals" using a(1) by simp
          show "\<forall>i. nat values_read \<le> i \<and> i < nat values_read + length ?blk \<longrightarrow>
                  vals' ! i = ?v1 ! i"
          proof (intro allI impI)
            fix i assume "nat values_read \<le> i \<and> i < nat values_read + length ?blk"
            moreover have "nat (values_read + ?rb) = nat values_read + nat ?rb"
              using rb0 "1.prems"(1) by (simp add: nat_add_distrib)
            ultimately have "i < nat (values_read + ?rb)" by simp
            then show "vals' ! i = ?v1 ! i" using a(2) by simp
          qed
        qed
        have "GetBatch_loop batch_size values_read vals' d =
              GetBatch_loop batch_size (values_read + ?rb) vals' ?d1"
          using lt rc False same by (simp add: eq' Let_def)
        then show ?thesis using "1.IH"(1)[OF lt rc False refl nz rec] by simp
      qed
    next
      case rc: False
      show ?thesis
      proof (cases "literal_count d \<noteq> 0")
        case lc: True
        show ?thesis
        proof (cases "sint (literal_count d) < 0")
          case True
          then show ?thesis using "1.prems" lt rc lc by (simp add: eq)
        next
          case False
          let ?lb = "min (batch_size - values_read) (sint (literal_count d))"
          let ?u = "BitReader_GetBatch (nat (bit_width d)) (nat ?lb) (bit_reader d)"
          let ?blk = "map ucast (fst ?u) :: 'a word list"
          let ?v1 = "write_at vals (nat values_read) ?blk"
          let ?d1 = "d\<lparr>bit_reader := snd ?u, literal_count := literal_count d - word_of_int ?lb\<rparr>"
          have lb0: "0 \<le> ?lb" using False lt by simp
          have nz: "0 \<le> values_read + ?lb" using lb0 "1.prems"(1) by simp
          have len: "length ?blk \<le> nat ?lb" using length_BitReader_GetBatch by simp
          have rec: "GetBatch_loop batch_size (values_read + ?lb) ?v1 ?d1 = Inr (n, vals', d')"
            using "1.prems"(2) lt rc lc False by (simp add: eq Let_def)
          from GetBatch_loop_keeps_front[OF nz rec]
          have a: "length vals' = length ?v1" "\<forall>i < nat (values_read + ?lb). vals' ! i = ?v1 ! i"
            by simp_all
          have same: "write_at vals' (nat values_read) ?blk = vals'"
          proof (rule write_at_same[where a = vals])
            show "length vals' = length vals" using a(1) by simp
            show "\<forall>i. nat values_read \<le> i \<and> i < nat values_read + length ?blk \<longrightarrow>
                    vals' ! i = ?v1 ! i"
            proof (intro allI impI)
              fix i assume "nat values_read \<le> i \<and> i < nat values_read + length ?blk"
              moreover have "nat (values_read + ?lb) = nat values_read + nat ?lb"
                using lb0 "1.prems"(1) by (simp add: nat_add_distrib)
              ultimately have "i < nat (values_read + ?lb)" using len by linarith
              then show "vals' ! i = ?v1 ! i" using a(2) by simp
            qed
          qed
          have "GetBatch_loop batch_size values_read vals' d =
                GetBatch_loop batch_size (values_read + ?lb) vals' ?d1"
            using lt rc lc False same by (simp add: eq' Let_def)
          then show ?thesis using "1.IH"(2)[OF lt rc lc False refl refl nz rec] by simp
        qed
      next
        case lc: False
        obtain ok d1 where nc: "NextCounts d = (ok, d1)" by (cases "NextCounts d")
        show ?thesis
        proof (cases ok)
          case True
          have rec: "GetBatch_loop batch_size values_read vals d1 = Inr (n, vals', d')"
            using "1.prems"(2) lt rc lc nc True by (simp add: eq)
          show ?thesis
            using "1.IH"(3)[OF lt rc lc nc[symmetric] _ "1.prems"(1) rec] lt rc lc nc True
            by (simp add: eq')
        next
          case False
          then have v: "vals' = vals" using "1.prems"(2) lt rc lc nc by (simp add: eq)
          show ?thesis using "1.prems"(2) unfolding v .
        qed
      qed
    qed
  qed
qed

text \<open>
  Claim C8. \<open>Reset\<close> sets every member of the decoder, so the state it leaves does not
  depend on the state before: it is the state of a newly constructed decoder. Hence a
  batch decoded after \<open>Reset\<close> is the batch decoded the first time, whatever was decoded
  in between: the same count, the same array, the same final state (or the same fault),
  and, for decoded levels, the same result of the bitmap builder, null count included.
  The second decode may also go into the array that the first one filled: every store
  repeats a store of the first decode, so the array comes out as it went in.
\<close>

theorem C8_decoding_after_Reset_is_repeatable:
  fixes vals :: "'a::len word list" and levels :: "int16 list"
  shows "Reset buf bw d = RleDecoder_init buf bw
   \<and> GetBatch batch_size vals (Reset buf bw d) = GetBatch batch_size vals (RleDecoder_init buf bw)
   \<and> (case GetBatch batch_size vals (RleDecoder_init buf bw) of
         Inl fault \<Rightarrow> GetBatch batch_size vals (Reset buf bw d) = Inl fault
       | Inr (n, vals', d') \<Rightarrow>
           GetBatch batch_size vals (Reset buf bw d') = Inr (n, vals', d'))
   \<and> (case GetBatch batch_size levels (RleDecoder_init buf bw) of
         Inl fault \<Rightarrow> True
       | Inr (n, levels', d') \<Rightarrow>
           (case GetBatch batch_size levels (Reset buf bw d') of
              Inl fault \<Rightarrow> False
            | Inr (n2, levels2, d2) \<Rightarrow>
                n2 = n \<and> levels2 = levels'
              \<and> DefinitionLevelsToBitmap_flat (take (nat n2) levels2) md 0 bits off =
                  DefinitionLevelsToBitmap_flat (take (nat n) levels') md 0 bits off))
   \<and> (case GetBatch batch_size vals (RleDecoder_init buf bw) of
         Inl fault \<Rightarrow> True
       | Inr (n, vals', d') \<Rightarrow>
           GetBatch batch_size vals' (Reset buf bw d') = Inr (n, vals', d'))"
proof -
  have r: "Reset buf bw d = RleDecoder_init buf bw" for d
    by (simp add: Reset_def RleDecoder_init_def)
  have again: "GetBatch batch_size vals' (RleDecoder_init buf bw) = Inr (n, vals', d')"
    if "GetBatch batch_size vals (RleDecoder_init buf bw) = Inr (n, vals', d')" for n vals' d'
    using that GetBatch_loop_again[of 0 batch_size vals "RleDecoder_init buf bw" n vals' d']
    by (simp add: GetBatch_def)
  have last: "case GetBatch batch_size vals (RleDecoder_init buf bw) of
         Inl fault \<Rightarrow> True
       | Inr (n, vals', d') \<Rightarrow>
           GetBatch batch_size vals' (Reset buf bw d') = Inr (n, vals', d')"
  proof (cases "GetBatch batch_size vals (RleDecoder_init buf bw)")
    case (Inl fault)
    then show ?thesis by simp
  next
    case (Inr res)
    obtain n vals' d' where res: "res = (n, vals', d')" by (cases res)
    show ?thesis unfolding Inr res r using again[OF Inr[unfolded res]] by simp
  qed
  have first: "Reset buf bw d = RleDecoder_init buf bw
   \<and> GetBatch batch_size vals (Reset buf bw d) = GetBatch batch_size vals (RleDecoder_init buf bw)
   \<and> (case GetBatch batch_size vals (RleDecoder_init buf bw) of
         Inl fault \<Rightarrow> GetBatch batch_size vals (Reset buf bw d) = Inl fault
       | Inr (n, vals', d') \<Rightarrow>
           GetBatch batch_size vals (Reset buf bw d') = Inr (n, vals', d'))
   \<and> (case GetBatch batch_size levels (RleDecoder_init buf bw) of
         Inl fault \<Rightarrow> True
       | Inr (n, levels', d') \<Rightarrow>
           (case GetBatch batch_size levels (Reset buf bw d') of
              Inl fault \<Rightarrow> False
            | Inr (n2, levels2, d2) \<Rightarrow>
                n2 = n \<and> levels2 = levels'
              \<and> DefinitionLevelsToBitmap_flat (take (nat n2) levels2) md 0 bits off =
                  DefinitionLevelsToBitmap_flat (take (nat n) levels') md 0 bits off))"
    by (simp add: r split: sum.splits)
  show ?thesis using first last by blast
qed

text \<open>
  The stream \<open>[6, 9]\<close> decoded, reset from its final state and decoded again.
\<close>

theorem C8_decoding_after_Reset_witness:
  "GetBatch 3 [0, 0, 0 :: int16] (RleDecoder_init [6, 9] 8) =
     Inr (3, [9, 9, 9], decoder_in_run\<lparr>repeat_count := 0\<rparr>)
   \<and> Reset [6, 9] 8 (decoder_in_run\<lparr>repeat_count := 0\<rparr>) = RleDecoder_init [6, 9] 8
   \<and> GetBatch 3 [0, 0, 0 :: int16] (Reset [6, 9] 8 (decoder_in_run\<lparr>repeat_count := 0\<rparr>)) =
     Inr (3, [9, 9, 9], decoder_in_run\<lparr>repeat_count := 0\<rparr>)
   \<and> Reset [6, 9] 8 decoder_after_first_run = RleDecoder_init [6, 9] 8"
proof -
  have g: "GetBatch 3 [0, 0, 0 :: int16] (RleDecoder_init [6, 9] 8) =
     Inr (3, [9, 9, 9], decoder_in_run\<lparr>repeat_count := 0\<rparr>)"
    by code_simp
  note t = C8_decoding_after_Reset_is_repeatable[where vals = "[0, 0, 0 :: int16]"
      and buf = "[6, 9]" and bw = 8 and batch_size = 3]
  have a: "Reset [6, 9] 8 d = RleDecoder_init [6, 9] 8" for d
    using conjunct1[OF t[where d = d]] .
  have b: "GetBatch 3 [0, 0, 0 :: int16] (Reset [6, 9] 8 (decoder_in_run\<lparr>repeat_count := 0\<rparr>)) =
     Inr (3, [9, 9, 9], decoder_in_run\<lparr>repeat_count := 0\<rparr>)"
    using conjunct1[OF conjunct2[OF conjunct2[OF t]]] unfolding g by simp
  show ?thesis using g a b by simp
qed

end
